theory Spec2Isabelle
  imports Complex_Main "HOL-Library.Multiset"
begin

section \<open>Values, trials and errors\<close>

text \<open>
  The handler of \<^verbatim>\<open>data/TrialHandler.js\<close> is embedded with its counters as integers.
  A trial is an object given by its own enumerable properties in \<^verbatim>\<open>for ... in\<close> order, or
  \<^verbatim>\<open>undefined\<close> (the default trial list is \<^verbatim>\<open>[undefined]\<close>), or \<^verbatim>\<open>null\<close> (the value
  the iterator stores in \<^verbatim>\<open>thisTrial\<close> at the end). Property values are primitives; a snapshot,
  which the source builds as an object literal and then extends by name, is a total map from
  property names to values in which a property that was never written reads \<^verbatim>\<open>undefined\<close>.
\<close>

datatype jsval =
    Undefined
  | Null
  | Bool bool
  | Num int
  | Str string
  | HandlerRef
  | GetCurrentTrialFn "int option"
  | GetTrialFn
  | AddDataFn
  | StrArray "string list"

datatype trial = NoTrial | NullTrial | Trial "(string \<times> jsval) list"

text \<open>
  \<open>Failure origin context error\<close> is the structured object the source throws;
  \<open>Unmodelled\<close> is no JavaScript exception: it marks an assignment that would store a value of
  another type in a counter or replace another member of the handler, where the typed embedding stops.
\<close>

datatype error =
    RangeError
  | TypeError
  | ReferenceError
  | Failure string string string
  | Unmodelled

datatype Method = SEQUENTIAL | RANDOM | FULL_RANDOM | UnknownMethod

datatype trialListArg =
    ArgUndefined
  | ArgArray "trial list"
  | ArgString string
  | ArgOther string

datatype outcome = Done | Value trial | Raised error

type_synonym snapshot = "string \<Rightarrow> jsval"

type_synonym rng = "nat \<Rightarrow> real"

record handler =
  trialList :: "trial list"
  nReps :: int
  method_ :: Method
  name :: jsval
  nStim :: int
  nTotal :: int
  nRemaining :: int
  thisRepN :: int
  thisTrialN :: int
  thisN :: int
  thisIndex :: "int option"
  ran :: int
  order :: int
  snapshots :: "snapshot list"
  trialSequence :: "int list list"
  thisTrial :: trial
  finished :: jsval
  attrs :: "string \<Rightarrow> jsval"

section \<open>Array and object primitives\<close>

text \<open>Reading an array at an index: \<open>None\<close> is \<^verbatim>\<open>undefined\<close>, the value out of range.\<close>

definition js_index :: "'a list \<Rightarrow> int \<Rightarrow> 'a option" where
  "js_index xs i = (if 0 \<le> i \<and> i < int (length xs) then Some (xs ! nat i) else None)"

text \<open>\<^verbatim>\<open>this.trialList[i]\<close>, where the index itself may be \<^verbatim>\<open>undefined\<close>.\<close>

definition trial_at :: "trial list \<Rightarrow> int option \<Rightarrow> trial" where
  "trial_at ts i =
     (case i of
        None \<Rightarrow> NoTrial
      | Some k \<Rightarrow> (case js_index ts k of None \<Rightarrow> NoTrial | Some t \<Rightarrow> t))"

text \<open>\<^verbatim>\<open>xs.slice(a, b)\<close> for non-negative bounds.\<close>

definition slice :: "'a list \<Rightarrow> nat \<Rightarrow> nat \<Rightarrow> 'a list" where
  "slice xs a b = take (b - a) (drop a xs)"

text \<open>The decimal numeral of an array index, as the property name of that element.\<close>

definition digit :: "nat \<Rightarrow> char" where
  "digit d = char_of (48 + d)"

function show_nat :: "nat \<Rightarrow> string" where
  "show_nat n = (if n < 10 then [digit n] else show_nat (n div 10) @ [digit (n mod 10)])"
  by pat_completeness auto
termination
  by (relation "measure id") auto

definition index_keys :: "nat \<Rightarrow> string list" where
  "index_keys n = map show_nat [0..<n]"

text \<open>
  \<^verbatim>\<open>key in array\<close>: the operator looks for a property of that name, so it holds for the
  indices of the array, for \<^verbatim>\<open>length\<close>, and for the names the array inherits from its
  prototype chain. The inherited names belong to the JavaScript engine and are a parameter.
\<close>

definition js_in :: "string list \<Rightarrow> string \<Rightarrow> 'a list \<Rightarrow> bool" where
  "js_in inherited key arr =
     (key \<in> set (index_keys (length arr)) \<or> key = ''length'' \<or> key \<in> set inherited)"

text \<open>The keys a \<^verbatim>\<open>for ... in\<close> loop visits, and \<^verbatim>\<open>trial[key]\<close>.\<close>

definition for_in :: "trial \<Rightarrow> string list" where
  "for_in t = (case t of Trial kvs \<Rightarrow> map fst kvs | _ \<Rightarrow> [])"

definition trial_get :: "trial \<Rightarrow> string \<Rightarrow> jsval" where
  "trial_get t k =
     (case t of
        Trial kvs \<Rightarrow> (case map_of kvs k of None \<Rightarrow> Undefined | Some v \<Rightarrow> v)
      | _ \<Rightarrow> Undefined)"

section \<open>The shuffle of the random orderings\<close>

text \<open>
  Modelled from the spec: \<^verbatim>\<open>util.shuffle\<close> (\<^verbatim>\<open>util/Util.js\<close>) is not among the sources.
  The spec gives it as the in-place Fisher-Yates shuffle: for index \<open>i\<close> from \<open>length - 1\<close>
  down to \<open>1\<close>, draw \<open>j = floor (rng.next() * (i + 1))\<close> and swap the elements at \<open>i\<close> and
  \<open>j\<close>. The random source is the stream of its draws, which the spec places in \<open>[0, 1)\<close>;
  for such draws \<open>j \<le> i\<close>.
\<close>

definition in_unit :: "rng \<Rightarrow> bool" where
  "in_unit g = (\<forall>n. 0 \<le> g n \<and> g n < 1)"

definition swap :: "nat \<Rightarrow> nat \<Rightarrow> 'a list \<Rightarrow> 'a list" where
  "swap i j xs = xs[i := xs ! j, j := xs ! i]"

fun shuffle_from :: "nat \<Rightarrow> 'a list \<Rightarrow> rng \<Rightarrow> 'a list \<times> rng" where
  "shuffle_from 0 xs g = (xs, g)"
| "shuffle_from (Suc k) xs g =
     (let j = nat \<lfloor>g 0 * real (Suc k + 1)\<rfloor>
      in shuffle_from k (swap (Suc k) j xs) (\<lambda>n. g (Suc n)))"

definition shuffle :: "'a list \<Rightarrow> rng \<Rightarrow> 'a list \<times> rng" where
  "shuffle xs g = shuffle_from (length xs - 1) xs g"

section \<open>Construction\<close>

text \<open>
  \<^verbatim>\<open>_prepareTrialList\<close>. A string names a condition resource, which \<^verbatim>\<open>importConditions\<close>
  reads through the server manager and the spreadsheet library; what it returns or throws
  for a name is the parameter \<open>imp\<close>. It returns no empty list: it allocates its result
  with \<^verbatim>\<open>new Array(selectedRows.length - 1)\<close>, which throws when there is no row, so the
  facts below about handlers built from a resource assume \<open>imp s \<noteq> Inr []\<close>.
\<close>

definition prepareTrialList ::
  "(string \<Rightarrow> error + trial list) \<Rightarrow> trialListArg \<Rightarrow> error + trial list" where
  "prepareTrialList imp a =
     (case a of
        ArgUndefined \<Rightarrow> Inr [NoTrial]
      | ArgArray ts \<Rightarrow> (if length ts = 0 then Inr [NoTrial] else Inr ts)
      | ArgString s \<Rightarrow> imp s
      | ArgOther ty \<Rightarrow>
          Inl (Failure ''TrialHandler._prepareTrialList'' ''when preparing the trial list''
                 (''unable to prepare trial list: unknown type: '' @ ty)))"

definition indices_of :: "trial list \<Rightarrow> int list" where
  "indices_of ts = map int [0..<length ts]"

fun random_rows :: "nat \<Rightarrow> int list \<Rightarrow> rng \<Rightarrow> int list list \<times> rng" where
  "random_rows 0 indices g = ([], g)"
| "random_rows (Suc n) indices g =
     (case shuffle indices g of
        (row, g') \<Rightarrow> (case random_rows n indices g' of (rows, g'') \<Rightarrow> (row # rows, g'')))"

definition reshape :: "int list \<Rightarrow> nat \<Rightarrow> nat \<Rightarrow> int list list" where
  "reshape flat reps stims = map (\<lambda>i. slice flat (i * stims) ((i + 1) * stims)) [0..<reps]"

text \<open>
  \<^verbatim>\<open>_prepareSequence\<close>. \<^verbatim>\<open>Array(n)\<close> throws a RangeError unless \<open>n\<close> is an array length;
  the loops of the two random methods run \<open>nReps\<close> times, not at all when it is negative.
\<close>

definition prepareSequence ::
  "Method \<Rightarrow> int \<Rightarrow> trial list \<Rightarrow> int \<Rightarrow> rng \<Rightarrow> error + int list list" where
  "prepareSequence m reps ts stims g =
     (let indices = indices_of ts
      in if m = SEQUENTIAL then
           (if reps < 0 \<or> 2 ^ 32 \<le> reps then Inl RangeError
            else Inr (replicate (nat reps) indices))
         else if m = RANDOM then Inr (fst (random_rows (nat reps) indices g))
         else if m = FULL_RANDOM then
           (let flatSequence = concat (replicate (nat reps) indices);
                shuffled = fst (shuffle flatSequence g)
            in Inr (reshape shuffled (nat reps) (nat stims)))
         else Inl (Failure ''TrialHandler._prepareSequence''
                     ''when preparing a sequence of trials'' ''unknown method''))"

text \<open>
  The constructor. An absent \<^verbatim>\<open>trialList\<close> takes the default \<^verbatim>\<open>[undefined]\<close> and an
  absent \<^verbatim>\<open>method\<close> the default \<^verbatim>\<open>RANDOM\<close>.
\<close>

definition TrialHandler ::
  "(string \<Rightarrow> error + trial list) \<Rightarrow> rng \<Rightarrow> trialListArg \<Rightarrow> int \<Rightarrow> Method option \<Rightarrow> jsval
     \<Rightarrow> error + handler" where
  "TrialHandler imp g trialList' nReps' method' name' =
     (let tlArg = (case trialList' of ArgUndefined \<Rightarrow> ArgArray [NoTrial] | a \<Rightarrow> a);
          m = (case method' of None \<Rightarrow> RANDOM | Some x \<Rightarrow> x)
      in case prepareTrialList imp tlArg of
           Inl e \<Rightarrow> Inl e
         | Inr ts \<Rightarrow>
             (let stims = int (length ts)
              in case prepareSequence m nReps' ts stims g of
                   Inl e \<Rightarrow> Inl e
                 | Inr sq \<Rightarrow>
                     Inr \<lparr> trialList = ts, nReps = nReps', method_ = m, name = name',
                           nStim = stims, nTotal = nReps' * stims, nRemaining = nReps' * stims,
                           thisRepN = 0, thisTrialN = - 1, thisN = - 1, thisIndex = Some 0,
                           ran = 0, order = - 1, snapshots = [], trialSequence = sq,
                           thisTrial = NullTrial, finished = Bool False,
                           attrs = (\<lambda>_. Undefined) \<rparr>))"

section \<open>Iteration\<close>

text \<open>
  The \<^verbatim>\<open>next\<close> of the iterator. The counters move before any test; reading a row that the
  sequence does not have raises a TypeError, reading a column that the row does not have
  gives \<^verbatim>\<open>undefined\<close>.
\<close>

definition iterator_next :: "handler \<Rightarrow> outcome \<times> handler" where
  "iterator_next h =
     (let h1 = h\<lparr> thisTrialN := thisTrialN h + 1, thisN := thisN h + 1,
                  nRemaining := nRemaining h - 1 \<rparr>;
          h2 = (if thisTrialN h1 = nStim h1
                then h1\<lparr> thisTrialN := 0, thisRepN := thisRepN h1 + 1 \<rparr> else h1)
      in if nReps h2 \<le> thisRepN h2 then (Done, h2\<lparr> thisTrial := NullTrial \<rparr>)
         else (case js_index (trialSequence h2) (thisRepN h2) of
                 None \<Rightarrow> (Raised TypeError, h2)
               | Some row \<Rightarrow>
                   (let h3 = h2\<lparr> thisIndex := js_index row (thisTrialN h2) \<rparr>;
                        h4 = h3\<lparr> thisTrial := trial_at (trialList h3) (thisIndex h3),
                                  ran := 1, order := thisN h3 \<rparr>
                    in (Value (thisTrial h4), h4))))"

text \<open>\<open>k\<close> calls of \<^verbatim>\<open>next\<close> in a row, whatever each one reports.\<close>

fun advance :: "nat \<Rightarrow> handler \<Rightarrow> handler" where
  "advance 0 h = h"
| "advance (Suc k) h = advance k (snd (iterator_next h))"

text \<open>
  \<^verbatim>\<open>forEach\<close>: the loop runs until the iterator is done, so it is a partial function. The
  callback is a step on an accumulator that sees the trial and, as a closure over the
  handler would, the handler's state.
\<close>

partial_function (option) forEach ::
  "(trial \<Rightarrow> handler \<Rightarrow> 'a \<Rightarrow> 'a) \<Rightarrow> handler \<Rightarrow> 'a \<Rightarrow> ((error + 'a) \<times> handler) option" where
  "forEach callback h acc =
     (case iterator_next h of
        (Done, h') \<Rightarrow> Some (Inr acc, h')
      | (Raised e, h') \<Rightarrow> Some (Inl e, h')
      | (Value v, h') \<Rightarrow> forEach callback h' (callback v h' acc))"

section \<open>Lookups\<close>

definition getCurrentTrial :: "handler \<Rightarrow> trial" where
  "getCurrentTrial h = trial_at (trialList h) (thisIndex h)"

definition getTrial :: "handler \<Rightarrow> int \<Rightarrow> trial" where
  "getTrial h index =
     (if index < 0 \<or> nTotal h < index then NoTrial else trial_at (trialList h) (Some index))"

text \<open>
  With \<^verbatim>\<open>thisIndex\<close> undefined the sum is NaN: the first comparison is false and the read
  at NaN gives \<^verbatim>\<open>undefined\<close>, as the guard does.
\<close>

definition getFutureTrial :: "handler \<Rightarrow> int \<Rightarrow> trial" where
  "getFutureTrial h n =
     (case thisIndex h of
        None \<Rightarrow> NoTrial
      | Some i \<Rightarrow>
          (if i + n < 0 \<or> nRemaining h < n then NoTrial
           else trial_at (trialList h) (Some (i + n))))"

text \<open>
  The identifiers bound where the class is defined: the four imports and the class. The body
  of \<^verbatim>\<open>getEarlierTrial\<close> is \<^verbatim>\<open>return getFutureTrial(-abs(n))\<close>, a call of the identifier
  \<^verbatim>\<open>getFutureTrial\<close> and not of the method \<^verbatim>\<open>this.getFutureTrial\<close>; evaluating an identifier
  that has no binding throws a ReferenceError, and the callee is evaluated first.
\<close>

definition module_scope :: "string list" where
  "module_scope = [''seedrandom'', ''XLSX'', ''PsychObject'', ''util'', ''TrialHandler'']"

definition getEarlierTrial :: "handler \<Rightarrow> int \<Rightarrow> error + trial" where
  "getEarlierTrial h n =
     (if ''getFutureTrial'' \<notin> set module_scope then Inl ReferenceError
      else if ''abs'' \<notin> set module_scope then Inl ReferenceError
      else Inr (getFutureTrial h (- \<bar>n\<bar>)))"

section \<open>Snapshots\<close>

definition excludedAttributes :: "string list" where
  "excludedAttributes =
     [''handler'', ''name'', ''nStim'', ''nRemaining'', ''thisRepN'', ''thisTrialN'', ''thisN'',
      ''thisIndex'', ''ran'', ''finished'']"

definition index_val :: "int option \<Rightarrow> jsval" where
  "index_val i = (case i of None \<Rightarrow> Undefined | Some k \<Rightarrow> Num k)"

definition warning :: "string \<Rightarrow> string" where
  "warning attribute =
     ''attempt to replace the value of protected TrialHandler variable: '' @ attribute"

text \<open>
  The body of the loop over the attributes of the current trial. Its state is the snapshot,
  the array \<^verbatim>\<open>trialAttributes\<close> and the warnings given to the logger. The last statement of
  the body stores the array in the snapshot, whichever branch was taken.
\<close>

definition copy_attribute ::
  "string list \<Rightarrow> trial \<Rightarrow> string \<Rightarrow> snapshot \<times> string list \<times> string list
     \<Rightarrow> snapshot \<times> string list \<times> string list" where
  "copy_attribute inherited currentTrial attribute st =
     (case st of (s, trialAttributes, warnings) \<Rightarrow>
        (if \<not> js_in inherited attribute excludedAttributes
         then (let s' = s(attribute := trial_get currentTrial attribute);
                   pushed = trialAttributes @ [attribute]
               in (s'(''trialAttributes'' := StrArray pushed), pushed, warnings))
         else (s(''trialAttributes'' := StrArray trialAttributes), trialAttributes,
               warnings @ [warning attribute])))"

definition snapshot_literal :: "handler \<Rightarrow> snapshot" where
  "snapshot_literal h =
     (\<lambda>_. Undefined)
       (''handler'' := HandlerRef,
        ''name'' := name h,
        ''nStim'' := Num (nStim h),
        ''nTotal'' := Num (nTotal h),
        ''nRemaining'' := Num (nRemaining h),
        ''thisRepN'' := Num (thisRepN h),
        ''thisTrialN'' := Num (thisTrialN h),
        ''thisN'' := Num (thisN h),
        ''thisIndex'' := index_val (thisIndex h),
        ''ran'' := Num (ran h),
        ''finished'' := finished h,
        ''getCurrentTrial'' := GetCurrentTrialFn (thisIndex h),
        ''getTrial'' := GetTrialFn,
        ''addData'' := AddDataFn)"

text \<open>
  \<^verbatim>\<open>getSnapshot\<close> returns the snapshot it has pushed on \<^verbatim>\<open>_snapshots\<close>: the result is the
  position of that object in the list, with the warnings logged on the way.
\<close>

definition getSnapshot :: "string list \<Rightarrow> handler \<Rightarrow> (nat \<times> string list) \<times> handler" where
  "getSnapshot inherited h =
     (let currentTrial = getCurrentTrial h
      in case fold (copy_attribute inherited currentTrial) (for_in currentTrial)
                (snapshot_literal h, [], []) of
           (s, trialAttributes, warnings) \<Rightarrow>
             ((length (snapshots h), warnings), h\<lparr> snapshots := snapshots h @ [s] \<rparr>))"

text \<open>The setter of \<^verbatim>\<open>finished\<close>.\<close>

definition set_finished :: "jsval \<Rightarrow> handler \<Rightarrow> handler" where
  "set_finished isFinished h =
     h\<lparr> finished := isFinished,
        snapshots := map (\<lambda>s. s(''finished'' := isFinished)) (snapshots h) \<rparr>"

text \<open>An assignment to a property of a snapshot that the caller holds.\<close>

definition snapshot_put :: "nat \<Rightarrow> string \<Rightarrow> jsval \<Rightarrow> handler \<Rightarrow> handler" where
  "snapshot_put r key v h =
     (if r < length (snapshots h)
      then h\<lparr> snapshots := (snapshots h)[r := ((snapshots h) ! r)(key := v)] \<rparr> else h)"

definition is_num :: "jsval \<Rightarrow> bool" where
  "is_num v = (case v of Num _ \<Rightarrow> True | _ \<Rightarrow> False)"

definition num_of :: "jsval \<Rightarrow> int" where
  "num_of v = (case v of Num k \<Rightarrow> k | _ \<Rightarrow> 0)"

definition is_index :: "jsval \<Rightarrow> bool" where
  "is_index v = (case v of Num _ \<Rightarrow> True | Undefined \<Rightarrow> True | _ \<Rightarrow> False)"

definition index_of :: "jsval \<Rightarrow> int option" where
  "index_of v = (case v of Num k \<Rightarrow> Some k | _ \<Rightarrow> None)"

text \<open>
  The nine assignments at the head of \<^verbatim>\<open>fromSnapshot\<close>. The last one reads the property
  \<^verbatim>\<open>_finished\<close> of the snapshot, where the snapshot literal writes \<^verbatim>\<open>finished\<close>.
\<close>

definition restore_counters :: "snapshot \<Rightarrow> handler \<Rightarrow> error + handler" where
  "restore_counters s h =
     (if list_all (\<lambda>k. is_num (s k))
           [''nStim'', ''nTotal'', ''nRemaining'', ''thisRepN'', ''thisTrialN'', ''thisN'', ''ran'']
         \<and> is_index (s ''thisIndex'')
      then Inr (h\<lparr> nStim := num_of (s ''nStim''),
                   nTotal := num_of (s ''nTotal''),
                   nRemaining := num_of (s ''nRemaining''),
                   thisRepN := num_of (s ''thisRepN''),
                   thisTrialN := num_of (s ''thisTrialN''),
                   thisN := num_of (s ''thisN''),
                   thisIndex := index_of (s ''thisIndex''),
                   ran := num_of (s ''ran''),
                   finished := s ''_finished'' \<rparr>)
      else Inl Unmodelled)"

text \<open>
  \<^verbatim>\<open>snapshot.handler[attribute] = value\<close>. A name of a counter stores into that counter,
  \<^verbatim>\<open>finished\<close> runs the setter, and any other member of the handler leaves the typed
  embedding: a name that begins with an underscore (the private fields, among them the
  backing field \<^verbatim>\<open>_nReps\<close>, \<^verbatim>\<open>_trialList\<close>, ... that \<^verbatim>\<open>_addAttribute\<close> gives each
  attribute and that the getter of the attribute reads), an attribute, its getter or its
  setter, and a method. Any other name becomes a property of the handler. The further
  members of the base class \<^verbatim>\<open>PsychObject\<close>, which is not among the sources, are taken
  not to be attribute names.
\<close>

definition other_members :: "string list" where
  "other_members =
     [''trialList'', ''nReps'', ''method'', ''extraInfo'', ''name'', ''autoLog'', ''seed'',
      ''getTrialList'', ''getNReps'', ''getMethod'', ''getExtraInfo'', ''getName'',
      ''getAutoLog'', ''getSeed'', ''setTrialList'', ''setNReps'', ''setMethod'',
      ''setExtraInfo'', ''setName'', ''setAutoLog'', ''setSeed'', ''psychoJS'',
      ''thisTrial'', ''experimentHandler'', ''next'', ''forEach'', ''getSnapshot'',
      ''getTrialIndex'', ''setTrialIndex'', ''getAttributes'', ''getCurrentTrial'',
      ''getTrial'', ''getFutureTrial'', ''getEarlierTrial'', ''addData'', ''constructor'']"

definition is_private :: "string \<Rightarrow> bool" where
  "is_private attribute = (case attribute of [] \<Rightarrow> False | c # _ \<Rightarrow> c = CHR ''_'')"

definition set_counter :: "(int \<Rightarrow> handler) \<Rightarrow> jsval \<Rightarrow> error + handler" where
  "set_counter store v = (case v of Num k \<Rightarrow> Inr (store k) | _ \<Rightarrow> Inl Unmodelled)"

definition assign :: "string \<Rightarrow> jsval \<Rightarrow> handler \<Rightarrow> error + handler" where
  "assign attribute v h =
     (if attribute = ''nStim'' then set_counter (\<lambda>k. h\<lparr> nStim := k \<rparr>) v
      else if attribute = ''nTotal'' then set_counter (\<lambda>k. h\<lparr> nTotal := k \<rparr>) v
      else if attribute = ''nRemaining'' then set_counter (\<lambda>k. h\<lparr> nRemaining := k \<rparr>) v
      else if attribute = ''thisRepN'' then set_counter (\<lambda>k. h\<lparr> thisRepN := k \<rparr>) v
      else if attribute = ''thisTrialN'' then set_counter (\<lambda>k. h\<lparr> thisTrialN := k \<rparr>) v
      else if attribute = ''thisN'' then set_counter (\<lambda>k. h\<lparr> thisN := k \<rparr>) v
      else if attribute = ''ran'' then set_counter (\<lambda>k. h\<lparr> ran := k \<rparr>) v
      else if attribute = ''order'' then set_counter (\<lambda>k. h\<lparr> order := k \<rparr>) v
      else if attribute = ''thisIndex''
        then (if is_index v then Inr (h\<lparr> thisIndex := index_of v \<rparr>) else Inl Unmodelled)
      else if attribute = ''_finished'' then Inr (h\<lparr> finished := v \<rparr>)
      else if attribute = ''finished'' then Inr (set_finished v h)
      else if is_private attribute \<or> attribute \<in> set other_members then Inl Unmodelled
      else Inr (h\<lparr> attrs := (attrs h)(attribute := v) \<rparr>))"

fun restore_attributes :: "snapshot \<Rightarrow> string list \<Rightarrow> handler \<Rightarrow> error option \<times> handler" where
  "restore_attributes s [] h = (None, h)"
| "restore_attributes s (attribute # rest) h =
     (case assign attribute (s attribute) h of
        Inl e \<Rightarrow> (Some e, h)
      | Inr h' \<Rightarrow> restore_attributes s rest h')"

text \<open>
  \<^verbatim>\<open>fromSnapshot\<close>, for a snapshot of this handler. \<open>None\<close> is the argument \<^verbatim>\<open>undefined\<close>.
  Class code is strict: when \<^verbatim>\<open>snapshot.handler\<close> is no longer the handler, the first
  assignment or the call of \<^verbatim>\<open>getCurrentTrial\<close> raises a TypeError and the handler is left
  as it was. The loop \<^verbatim>\<open>for ... of\<close> raises a TypeError on a value that is not iterable,
  as \<^verbatim>\<open>undefined\<close> is, and visits the characters of a string.
\<close>

definition fromSnapshot :: "snapshot option \<Rightarrow> handler \<Rightarrow> error option \<times> handler" where
  "fromSnapshot snapshot h =
     (case snapshot of
        None \<Rightarrow> (None, h)
      | Some s \<Rightarrow>
          (if s ''handler'' \<noteq> HandlerRef then (Some TypeError, h)
           else case restore_counters s h of
                  Inl e \<Rightarrow> (Some e, h)
                | Inr h1 \<Rightarrow>
                    (let h2 = h1\<lparr> thisTrial := getCurrentTrial h1 \<rparr>
                     in case s ''trialAttributes'' of
                          StrArray names \<Rightarrow> restore_attributes s names h2
                        | Str cs \<Rightarrow> restore_attributes s (map (\<lambda>c. [c]) cs) h2
                        | HandlerRef \<Rightarrow> (Some Unmodelled, h2)
                        | _ \<Rightarrow> (Some TypeError, h2))))"

section \<open>Positions in the run and sample handlers\<close>

text \<open>
  The place of a handler in its run: the number of the current trial among all the trials,
  counted from the repeat and the trial within the repeat. \<open>in_row\<close> is the range the
  iterator keeps the trial counter in.
\<close>

definition lin :: "handler \<Rightarrow> int" where
  "lin h = thisRepN h * nStim h + thisTrialN h"

definition in_row :: "handler \<Rightarrow> bool" where
  "in_row h = (1 \<le> nStim h \<and> - 1 \<le> thisTrialN h \<and> thisTrialN h < nStim h)"

text \<open>A callback for \<^verbatim>\<open>forEach\<close> that writes down the index and the trial of each step.\<close>

definition visit :: "trial \<Rightarrow> handler \<Rightarrow> (int option \<times> trial) list \<Rightarrow> (int option \<times> trial) list" where
  "visit v h acc = acc @ [(thisIndex h, v)]"

text \<open>
  Sample inputs: a server without resources, a random source that always draws \<open>0\<close>, a
  list of two trials, and the handler for two sequential repeats of that list.
\<close>

definition no_resources :: "string \<Rightarrow> error + trial list" where
  "no_resources s =
     Inl (Failure ''TrialHandler.importConditions'' (''when importing condition: '' @ s) [])"

definition zero_draws :: rng where
  "zero_draws n = 0"

definition colours :: "trial list" where
  "colours = [Trial [(''word'', Str ''red'')], Trial [(''word'', Str ''green'')]]"

definition colours_twice :: "error + handler" where
  "colours_twice =
     TrialHandler no_resources zero_draws (ArgArray colours) 2 (Some SEQUENTIAL) (Str ''trials'')"

text \<open>
  Two repeats of an empty trial list, and a handler that is asked for no repeat of the two
  trials.
\<close>

definition empty_twice :: "error + handler" where
  "empty_twice =
     TrialHandler no_resources zero_draws (ArgArray []) 2 (Some SEQUENTIAL) Undefined"

definition colours_never :: "error + handler" where
  "colours_never =
     TrialHandler no_resources zero_draws (ArgArray colours) 0 (Some RANDOM) Undefined"

text \<open>
  A trial with a field named as a counter and a field named \<^verbatim>\<open>length\<close>, the handler for one
  sequential pass over it, and names that every array inherits from its prototypes.
\<close>

definition labelled :: "trial list" where
  "labelled = [Trial [(''word'', Str ''red''), (''nStim'', Num 99), (''length'', Num 5)]]"

definition labelled_once :: "error + handler" where
  "labelled_once =
     TrialHandler no_resources zero_draws (ArgArray labelled) 1 (Some SEQUENTIAL) Undefined"

definition array_chain :: "string list" where
  "array_chain =
     [''constructor'', ''concat'', ''push'', ''pop'', ''slice'', ''includes'', ''indexOf'',
      ''keys'', ''toString'', ''hasOwnProperty'', ''valueOf'']"

text \<open>
  The handler of the two trials after its first trial, with the loop marked as finished;
  the same handler after a snapshot was taken; the default handler (one undefined trial)
  after its first trial and a snapshot; and the two-trial handler after its first trial and
  a snapshot, the loop still open.
\<close>

definition marked :: handler where
  "marked = set_finished (Bool True) (advance 1 (projr colours_twice))"

definition captured :: handler where
  "captured = snd (getSnapshot array_chain marked)"

definition blank_captured :: handler where
  "blank_captured = snd (getSnapshot array_chain (advance 1 (projr empty_twice)))"

definition held :: handler where
  "held = snd (getSnapshot array_chain (advance 1 (projr colours_twice)))"

text \<open>A random source whose first draw is \<open>3/4\<close> and whose later draws are \<open>1/2\<close>.\<close>

definition late_draws :: rng where
  "late_draws n = (if n = 0 then 3 / 4 else 1 / 2)"

definition colours_shuffled :: "error + handler" where
  "colours_shuffled =
     TrialHandler no_resources late_draws (ArgArray colours) 2 (Some FULL_RANDOM) Undefined"

text \<open>
  The two-trial handler after a snapshot at its first trial, a call of \<^verbatim>\<open>next\<close> and a
  snapshot at its second trial: a handler with two snapshots.
\<close>

definition held_twice :: handler where
  "held_twice = snd (getSnapshot array_chain (snd (iterator_next held)))"

section \<open>Steps of the iterator\<close>

lemma next_frame:
  "nStim (snd (iterator_next h)) = nStim h"
  "nReps (snd (iterator_next h)) = nReps h"
  "nTotal (snd (iterator_next h)) = nTotal h"
  "trialList (snd (iterator_next h)) = trialList h"
  "trialSequence (snd (iterator_next h)) = trialSequence h"
  "snapshots (snd (iterator_next h)) = snapshots h"
  "finished (snd (iterator_next h)) = finished h"
  by (simp_all add: iterator_next_def Let_def split: option.splits)

lemma next_counts:
  "thisN (snd (iterator_next h)) = thisN h + 1"
  "nRemaining (snd (iterator_next h)) = nRemaining h - 1"
  by (simp_all add: iterator_next_def Let_def split: option.splits)

lemma next_in_row:
  assumes "in_row h"
  shows "in_row (snd (iterator_next h))"
    and "lin (snd (iterator_next h)) = lin h + 1"
    and "0 \<le> thisTrialN (snd (iterator_next h))"
  using assms
  by (auto simp add: iterator_next_def Let_def in_row_def lin_def algebra_simps split: option.splits)

lemma rep_bound:
  fixes S :: int
  assumes "0 \<le> t" "t < S"
  shows "(R \<le> q) = (R * S \<le> q * S + t)"
proof
  assume "R \<le> q"
  then have "R * S \<le> q * S" using assms by (simp add: mult_right_mono)
  then show "R * S \<le> q * S + t" using assms by linarith
next
  assume a: "R * S \<le> q * S + t"
  show "R \<le> q"
  proof (rule ccontr)
    assume "\<not> R \<le> q"
    then have "q + 1 \<le> R" by simp
    then have "(q + 1) * S \<le> R * S" using assms by (simp add: mult_right_mono)
    then show False using a assms by (simp add: algebra_simps)
  qed
qed

lemma next_done_iff:
  assumes "in_row h"
  shows "(fst (iterator_next h) = Done) = (nReps h * nStim h \<le> lin h + 1)"
proof -
  let ?h' = "snd (iterator_next h)"
  have a: "(fst (iterator_next h) = Done) = (nReps h \<le> thisRepN ?h')"
    by (simp add: iterator_next_def Let_def split: option.splits)
  have b: "0 \<le> thisTrialN ?h'" "thisTrialN ?h' < nStim h"
    using next_in_row[OF assms] by (simp_all add: in_row_def next_frame)
  have "lin ?h' = lin h + 1" using next_in_row[OF assms] by simp
  then have c: "thisRepN ?h' * nStim h + thisTrialN ?h' = lin h + 1"
    by (simp add: lin_def next_frame)
  show ?thesis using rep_bound[OF b, of "nReps h" "thisRepN ?h'"] a c by simp
qed

lemma iterator_next_eq:
  "iterator_next h =
    (let t = (if thisTrialN h + 1 = nStim h then 0 else thisTrialN h + 1);
         r = (if thisTrialN h + 1 = nStim h then thisRepN h + 1 else thisRepN h);
         h2 = h\<lparr> thisTrialN := t, thisN := thisN h + 1, nRemaining := nRemaining h - 1,
                  thisRepN := r \<rparr>
     in if nReps h \<le> r then (Done, h2\<lparr> thisTrial := NullTrial \<rparr>)
        else case js_index (trialSequence h) r of
               None \<Rightarrow> (Raised TypeError, h2)
             | Some row \<Rightarrow>
                 (Value (trial_at (trialList h) (js_index row t)),
                  h2\<lparr> thisIndex := js_index row t,
                      thisTrial := trial_at (trialList h) (js_index row t),
                      ran := 1, order := thisN h + 1 \<rparr>))"
  by (simp add: iterator_next_def Let_def split: option.splits)


lemma next_value:
  assumes "in_row h" and "0 \<le> lin h + 1" and "lin h + 1 < nReps h * nStim h"
    and "length (trialSequence h) = nat (nReps h)"
  defines "i \<equiv> js_index (trialSequence h ! nat ((lin h + 1) div nStim h))
                          ((lin h + 1) mod nStim h)"
  shows "fst (iterator_next h) = Value (trial_at (trialList h) i)"
    and "thisIndex (snd (iterator_next h)) = i"
    and "thisTrial (snd (iterator_next h)) = trial_at (trialList h) i"
proof -
  define t where "t = (if thisTrialN h + 1 = nStim h then 0 else thisTrialN h + 1)"
  define r where "r = (if thisTrialN h + 1 = nStim h then thisRepN h + 1 else thisRepN h)"
  have S: "0 < nStim h" using assms(1) by (simp add: in_row_def)
  have b: "0 \<le> t" "t < nStim h"
    using assms(1) by (auto simp add: in_row_def t_def)
  have c: "lin h + 1 = nStim h * r + t"
    by (simp add: lin_def t_def r_def algebra_simps)
  have q: "(lin h + 1) div nStim h = r" using int_div_pos_eq[OF c b] .
  have m: "(lin h + 1) mod nStim h = t" using int_mod_pos_eq[OF c b] .
  have "r * nStim h + t < nReps h * nStim h" using c assms(3) by (simp add: mult.commute)
  then have lt: "\<not> nReps h \<le> r" using rep_bound[OF b, of "nReps h" r] by simp
  have ge: "0 \<le> r" using q assms(2) S pos_imp_zdiv_nonneg_iff[OF S, of "lin h + 1"] by simp
  have row: "js_index (trialSequence h) r = Some (trialSequence h ! nat r)"
    using lt ge assms(4) by (simp add: js_index_def)
  have e: "iterator_next h =
     (Value (trial_at (trialList h) (js_index (trialSequence h ! nat r) t)),
      h\<lparr> thisTrialN := t, thisN := thisN h + 1, nRemaining := nRemaining h - 1, thisRepN := r,
          thisIndex := js_index (trialSequence h ! nat r) t,
          thisTrial := trial_at (trialList h) (js_index (trialSequence h ! nat r) t),
          ran := 1, order := thisN h + 1 \<rparr>)"
    unfolding iterator_next_eq Let_def t_def[symmetric] r_def[symmetric]
    using lt row by simp
  show "fst (iterator_next h) = Value (trial_at (trialList h) i)"
    and "thisIndex (snd (iterator_next h)) = i"
    and "thisTrial (snd (iterator_next h)) = trial_at (trialList h) i"
    unfolding e i_def q m by simp_all
qed

lemma advance_counts:
  "thisN (advance k h) = thisN h + int k"
  "nRemaining (advance k h) = nRemaining h - int k"
  by (induction k arbitrary: h) (simp_all add: next_counts)

lemma advance_frame:
  "nStim (advance k h) = nStim h"
  "nReps (advance k h) = nReps h"
  "nTotal (advance k h) = nTotal h"
  "trialList (advance k h) = trialList h"
  "trialSequence (advance k h) = trialSequence h"
  "snapshots (advance k h) = snapshots h"
  "finished (advance k h) = finished h"
  by (induction k arbitrary: h) (simp_all add: next_frame)

lemma advance_in_row:
  "in_row h \<Longrightarrow> in_row (advance k h)"
  "in_row h \<Longrightarrow> lin (advance k h) = lin h + int k"
  by (induction k arbitrary: h) (simp_all add: next_in_row)

lemma advance_Suc: "advance (Suc k) h = snd (iterator_next (advance k h))"
  by (induction k arbitrary: h) simp_all


lemma length_random_rows: "length (fst (random_rows n ind g)) = n"
proof (induction n arbitrary: g)
  case 0
  show ?case by simp
next
  case (Suc n)
  obtain row g' where s: "shuffle ind g = (row, g')" by (cases "shuffle ind g")
  obtain rows g'' where r: "random_rows n ind g' = (rows, g'')"
    by (cases "random_rows n ind g'")
  have "length rows = n" using Suc[of g'] r by simp
  then show ?case using s r by simp
qed

lemma length_reshape: "length (reshape flat reps stims) = reps"
  by (simp add: reshape_def)

lemma prepareSequence_length:
  "prepareSequence m r ts stims g = Inr sq \<Longrightarrow> length sq = nat r"
  by (auto simp add: prepareSequence_def Let_def length_random_rows length_reshape
      split: if_splits)

lemma prepareTrialList_nonempty:
  "prepareTrialList imp a = Inr ts \<Longrightarrow> \<forall>s. imp s \<noteq> Inr [] \<Longrightarrow> ts \<noteq> []"
  by (auto simp add: prepareTrialList_def split: trialListArg.splits if_splits)

lemma constructed:
  assumes "TrialHandler imp g a r m nm = Inr h"
  shows "nReps h = r \<and> nStim h = int (length (trialList h)) \<and> nTotal h = r * nStim h
    \<and> nRemaining h = r * nStim h \<and> thisRepN h = 0 \<and> thisTrialN h = - 1 \<and> thisN h = - 1
    \<and> thisIndex h = Some 0 \<and> ran h = 0 \<and> snapshots h = [] \<and> thisTrial h = NullTrial
    \<and> finished h = Bool False \<and> length (trialSequence h) = nat r
    \<and> ((\<forall>s. imp s \<noteq> Inr []) \<longrightarrow> trialList h \<noteq> [])"
  using assms
  by (auto simp add: TrialHandler_def Let_def split: sum.splits
      dest: prepareSequence_length prepareTrialList_nonempty)

section \<open>The lookups outside their bounds\<close>

text \<open>
  C6. \<^verbatim>\<open>getEarlierTrial\<close> raises a ReferenceError for every handler and every argument:
  it calls the unbound identifier \<^verbatim>\<open>getFutureTrial\<close>.
\<close>

theorem getEarlierTrial_raises: "getEarlierTrial h n = Inl ReferenceError"
  by (simp add: getEarlierTrial_def module_scope_def)

section \<open>Counters along a run\<close>

lemma colours_twice_value:
  "colours_twice =
     Inr \<lparr> trialList = colours, nReps = 2, method_ = SEQUENTIAL, name = Str ''trials'',
           nStim = 2, nTotal = 4, nRemaining = 4, thisRepN = 0, thisTrialN = - 1, thisN = - 1,
           thisIndex = Some 0, ran = 0, order = - 1, snapshots = [],
           trialSequence = [[0, 1], [0, 1]], thisTrial = NullTrial, finished = Bool False,
           attrs = (\<lambda>_. Undefined) \<rparr>"
  by (simp add: colours_twice_def TrialHandler_def prepareTrialList_def prepareSequence_def
      indices_of_def colours_def Let_def numeral_2_eq_2 upt_rec)

lemma constructed_in_row:
  assumes "TrialHandler imp g a r m nm = Inr h" and "\<forall>s. imp s \<noteq> Inr []"
  shows "in_row h" and "lin h = - 1"
  using constructed[OF assms(1)] assms(2) by (auto simp add: in_row_def lin_def Suc_le_eq)

text \<open>
  C1, as the code has it. \<^verbatim>\<open>thisN\<close> starts at \<open>-1\<close>, so after construction and after any
  number of calls of \<^verbatim>\<open>next\<close> the sum \<^verbatim>\<open>thisN + nRemaining\<close> is \<open>nReps * nStim - 1\<close>, one
  less than the number of trials. Every call takes exactly one from \<^verbatim>\<open>nRemaining\<close>, which
  is \<open>0\<close> after \<open>nReps * nStim\<close> calls; each of these calls yields a trial, and the call
  after them reports that the sequence is done. This holds for every handler the
  constructor returns for a repetition count that is not negative, whatever the method.
\<close>

theorem counters_along_run:
  assumes "TrialHandler imp g a r m nm = Inr h0" and "0 \<le> r" and "\<forall>s. imp s \<noteq> Inr []"
  shows "thisN (advance k h0) + nRemaining (advance k h0) = nReps h0 * nStim h0 - 1
    \<and> nRemaining (advance (Suc k) h0) = nRemaining (advance k h0) - 1
    \<and> nRemaining (advance (nat (nReps h0 * nStim h0)) h0) = 0
    \<and> (int k < nReps h0 * nStim h0 \<longrightarrow> (\<exists>v. fst (iterator_next (advance k h0)) = Value v))
    \<and> fst (iterator_next (advance (nat (nReps h0 * nStim h0)) h0)) = Done"
proof -
  note c = constructed[OF assms(1)]
  have row: "in_row h0" and l: "lin h0 = - 1"
    using constructed_in_row[OF assms(1,3)] by simp_all
  have tot: "0 \<le> nReps h0 * nStim h0" using c assms(2) by simp
  have pos: "\<And>j. in_row (advance j h0)" "\<And>j. lin (advance j h0) + 1 = int j"
    using advance_in_row[OF row] l by simp_all
  have 1: "thisN (advance k h0) + nRemaining (advance k h0) = nReps h0 * nStim h0 - 1"
    using c by (simp add: advance_counts)
  have 2: "nRemaining (advance (Suc k) h0) = nRemaining (advance k h0) - 1"
    by (simp add: advance_counts next_counts)
  have 3: "nRemaining (advance (nat (nReps h0 * nStim h0)) h0) = 0"
    using c tot by (simp add: advance_counts)
  have 4: "\<exists>v. fst (iterator_next (advance k h0)) = Value v" if "int k < nReps h0 * nStim h0"
    using next_value(1)[OF pos(1)[of k]] that c by (simp add: pos(2) advance_frame)
  have 5: "fst (iterator_next (advance (nat (nReps h0 * nStim h0)) h0)) = Done"
    using next_done_iff[OF pos(1)[of "nat (nReps h0 * nStim h0)"]] tot
    by (simp add: pos(2) advance_frame)
  show ?thesis using 1 2 3 4 5 by blast
qed

theorem counters_along_run_witness:
  "TrialHandler no_resources zero_draws (ArgArray colours) 2 (Some SEQUENTIAL) (Str ''trials'')
     = Inr (projr colours_twice)
   \<and> (0::int) \<le> 2 \<and> (\<forall>s. no_resources s \<noteq> Inr [])
   \<and> thisN (advance 1 (projr colours_twice)) + nRemaining (advance 1 (projr colours_twice)) = 3
   \<and> nRemaining (advance 4 (projr colours_twice)) = 0
   \<and> (\<exists>v. fst (iterator_next (advance 1 (projr colours_twice))) = Value v)
   \<and> fst (iterator_next (advance 4 (projr colours_twice))) = Done"
proof -
  have a: "TrialHandler no_resources zero_draws (ArgArray colours) 2 (Some SEQUENTIAL)
      (Str ''trials'') = Inr (projr colours_twice)"
    unfolding colours_twice_def[symmetric] by (simp add: colours_twice_value)
  have b: "\<forall>s. no_resources s \<noteq> Inr []" by (simp add: no_resources_def)
  have n: "nReps (projr colours_twice) = 2" "nStim (projr colours_twice) = 2"
    by (simp_all add: colours_twice_value)
  show ?thesis
    using counters_along_run[OF a _ b, of 1] a b by (simp add: n)
qed

theorem sum_of_counters_counterexample:
  "\<not> isl colours_twice
   \<and> thisN (projr colours_twice) + nRemaining (projr colours_twice)
       \<noteq> nReps (projr colours_twice) * nStim (projr colours_twice)"
  by (simp add: colours_twice_value)

section \<open>After the end of the sequence\<close>

lemma run_done_iff:
  assumes "TrialHandler imp g a r m nm = Inr h0" and "\<forall>s. imp s \<noteq> Inr []"
  shows "(fst (iterator_next (advance k h0)) = Done) = (nReps h0 * nStim h0 \<le> int k)"
proof -
  have row: "in_row h0" and l: "lin h0 = - 1"
    using constructed_in_row[OF assms] by simp_all
  have "in_row (advance k h0)" "lin (advance k h0) + 1 = int k"
    using advance_in_row[OF row] l by simp_all
  then show ?thesis using next_done_iff[of "advance k h0"] by (simp add: advance_frame)
qed

lemma next_rep_mono: "thisRepN h \<le> thisRepN (snd (iterator_next h))"
  by (simp add: iterator_next_eq Let_def split: option.splits)

lemma next_done_rep: "fst (iterator_next h) = Done \<Longrightarrow> nReps h \<le> thisRepN (snd (iterator_next h))"
  by (simp add: iterator_next_eq Let_def split: option.splits if_splits)

lemma next_when_spent:
  assumes "nReps h \<le> thisRepN h"
  shows "fst (iterator_next h) = Done"
    and "thisIndex (snd (iterator_next h)) = thisIndex h"
    and "ran (snd (iterator_next h)) = ran h"
    and "order (snd (iterator_next h)) = order h"
    and "thisTrial (snd (iterator_next h)) = NullTrial"
  using assms by (simp_all add: iterator_next_eq Let_def)

lemma advance_spent:
  "nReps h \<le> thisRepN h \<Longrightarrow> nReps (advance k h) \<le> thisRepN (advance k h)"
proof (induction k arbitrary: h)
  case 0
  then show ?case by simp
next
  case (Suc k)
  have "nReps (snd (iterator_next h)) \<le> thisRepN (snd (iterator_next h))"
    using Suc.prems next_rep_mono[of h] by (simp add: next_frame)
  then show ?case using Suc.IH by simp
qed

lemma advance_spent_frame:
  "nReps h \<le> thisRepN h \<Longrightarrow>
     thisIndex (advance k h) = thisIndex h \<and> ran (advance k h) = ran h
     \<and> order (advance k h) = order h"
proof (induction k arbitrary: h)
  case 0
  then show ?case by simp
next
  case (Suc k)
  have "nReps (snd (iterator_next h)) \<le> thisRepN (snd (iterator_next h))"
    using Suc.prems next_rep_mono[of h] by (simp add: next_frame)
  then show ?case using Suc.IH[of "snd (iterator_next h)"] next_when_spent[OF Suc.prems] by simp
qed

text \<open>
  C3, as the code has it. Once a call of \<^verbatim>\<open>next\<close> has reported that the sequence is done,
  every further call reports it again and leaves the current trial \<^verbatim>\<open>null\<close> and
  \<^verbatim>\<open>thisIndex\<close>, \<^verbatim>\<open>ran\<close>, \<^verbatim>\<open>order\<close>, \<^verbatim>\<open>nStim\<close>, \<^verbatim>\<open>nTotal\<close> and the finished flag as
  they were. The call is not without effect: the counters move before the test, so each
  further call adds one to \<^verbatim>\<open>thisN\<close> and takes one from \<^verbatim>\<open>nRemaining\<close>.
\<close>

theorem done_again_after_done:
  assumes "fst (iterator_next h) = Done"
  shows "fst (iterator_next (advance (Suc k) h)) = Done
    \<and> thisTrial (advance (Suc (Suc k)) h) = NullTrial
    \<and> thisIndex (advance (Suc (Suc k)) h) = thisIndex (advance 1 h)
    \<and> ran (advance (Suc (Suc k)) h) = ran (advance 1 h)
    \<and> order (advance (Suc (Suc k)) h) = order (advance 1 h)
    \<and> finished (advance (Suc (Suc k)) h) = finished (advance 1 h)
    \<and> nStim (advance (Suc (Suc k)) h) = nStim (advance 1 h)
    \<and> nTotal (advance (Suc (Suc k)) h) = nTotal (advance 1 h)
    \<and> thisN (advance (Suc (Suc k)) h) = thisN (advance (Suc k) h) + 1
    \<and> nRemaining (advance (Suc (Suc k)) h) = nRemaining (advance (Suc k) h) - 1"
proof -
  let ?h1 = "snd (iterator_next h)"
  have s1: "nReps ?h1 \<le> thisRepN ?h1"
    using next_done_rep[OF assms] by (simp add: next_frame)
  have sk: "nReps (advance k ?h1) \<le> thisRepN (advance k ?h1)"
    using advance_spent[OF s1] .
  have e: "advance (Suc (Suc k)) h = snd (iterator_next (advance k ?h1))"
    using advance_Suc[of "Suc k" h] by simp
  have f: "advance (Suc k) h = advance k ?h1" by simp
  show ?thesis
    unfolding e f
    using next_when_spent[OF sk] advance_spent_frame[OF s1, of k]
    by (simp add: next_frame next_counts advance_frame)
qed

theorem done_again_after_done_witness:
  "fst (iterator_next (advance 4 (projr colours_twice))) = Done
   \<and> fst (iterator_next (advance 5 (projr colours_twice))) = Done
   \<and> thisTrial (advance 6 (projr colours_twice)) = NullTrial
   \<and> nRemaining (advance 6 (projr colours_twice)) = nRemaining (advance 5 (projr colours_twice)) - 1"
proof -
  have a: "TrialHandler no_resources zero_draws (ArgArray colours) 2 (Some SEQUENTIAL)
      (Str ''trials'') = Inr (projr colours_twice)"
    unfolding colours_twice_def[symmetric] by (simp add: colours_twice_value)
  have b: "\<forall>s. no_resources s \<noteq> Inr []" by (simp add: no_resources_def)
  have d: "fst (iterator_next (advance 4 (projr colours_twice))) = Done"
    using run_done_iff[OF a b, of 4] by (simp add: colours_twice_value)
  have e: "advance (Suc 0) (advance 4 (projr colours_twice)) = advance 5 (projr colours_twice)"
    "advance (Suc (Suc 0)) (advance 4 (projr colours_twice)) = advance 6 (projr colours_twice)"
    by (simp_all add: eval_nat_numeral)
  show ?thesis
    using done_again_after_done[OF d, of 0] d unfolding e by simp
qed

theorem no_op_after_done_counterexample:
  "fst (iterator_next (advance 4 (projr colours_twice))) = Done
   \<and> fst (iterator_next (advance 5 (projr colours_twice))) = Done
   \<and> nRemaining (advance 5 (projr colours_twice)) = - 1
   \<and> nRemaining (snd (iterator_next (advance 5 (projr colours_twice)))) = - 2
   \<and> thisN (advance 5 (projr colours_twice)) = 4
   \<and> thisN (snd (iterator_next (advance 5 (projr colours_twice)))) = 5"
proof -
  have a: "TrialHandler no_resources zero_draws (ArgArray colours) 2 (Some SEQUENTIAL)
      (Str ''trials'') = Inr (projr colours_twice)"
    unfolding colours_twice_def[symmetric] by (simp add: colours_twice_value)
  have b: "\<forall>s. no_resources s \<noteq> Inr []" by (simp add: no_resources_def)
  show ?thesis
    using run_done_iff[OF a b, of 4] run_done_iff[OF a b, of 5]
    by (simp add: colours_twice_value next_counts advance_counts)
qed

section \<open>No trials and no repeats\<close>

lemma empty_twice_value:
  "empty_twice =
     Inr \<lparr> trialList = [NoTrial], nReps = 2, method_ = SEQUENTIAL, name = Undefined,
           nStim = 1, nTotal = 2, nRemaining = 2, thisRepN = 0, thisTrialN = - 1, thisN = - 1,
           thisIndex = Some 0, ran = 0, order = - 1, snapshots = [],
           trialSequence = [[0], [0]], thisTrial = NullTrial, finished = Bool False,
           attrs = (\<lambda>_. Undefined) \<rparr>"
  by (simp add: empty_twice_def TrialHandler_def prepareTrialList_def prepareSequence_def
      indices_of_def Let_def numeral_2_eq_2)

lemma colours_never_value:
  "colours_never =
     Inr \<lparr> trialList = colours, nReps = 0, method_ = RANDOM, name = Undefined,
           nStim = 2, nTotal = 0, nRemaining = 0, thisRepN = 0, thisTrialN = - 1, thisN = - 1,
           thisIndex = Some 0, ran = 0, order = - 1, snapshots = [],
           trialSequence = [], thisTrial = NullTrial, finished = Bool False,
           attrs = (\<lambda>_. Undefined) \<rparr>"
  by (simp add: colours_never_def TrialHandler_def prepareTrialList_def prepareSequence_def
      indices_of_def colours_def Let_def)

text \<open>
  C5, as the code has it. No handler has \<^verbatim>\<open>nStim = 0\<close>: the constructor replaces an empty
  trial list by the list \<^verbatim>\<open>[undefined]\<close>, so that it builds the same handler for both, and
  every handler it returns, for any repetition count, has at least one trial in its list
  and \<open>nReps * nStim\<close> trials in all. A handler built for \<open>0\<close> repeats, from any trial list
  and with any method, has no trial in all and an empty sequence; its remaining count
  starts at \<open>0\<close>; the first call of \<^verbatim>\<open>next\<close> and every later one report that the sequence
  is done, and after \<open>k\<close> calls the remaining count is \<open>-k\<close>.
\<close>

theorem no_repeats_no_trials:
  assumes "TrialHandler imp g a 0 m nm = Inr h0" and "\<forall>s. imp s \<noteq> Inr []"
  shows "nTotal h0 = 0 \<and> trialSequence h0 = [] \<and> nRemaining h0 = 0
    \<and> fst (iterator_next (advance k h0)) = Done
    \<and> nRemaining (advance k h0) = - int k
    \<and> TrialHandler imp g (ArgArray []) r m nm = TrialHandler imp g (ArgArray [NoTrial]) r m nm
    \<and> (TrialHandler imp g' a' r' m' nm' = Inr h
         \<longrightarrow> 1 \<le> nStim h \<and> nStim h = int (length (trialList h)) \<and> nTotal h = r' * nStim h)"
proof -
  note c = constructed[OF assms(1)]
  have d: "fst (iterator_next (advance k h0)) = Done"
    using run_done_iff[OF assms, of k] c by simp
  have e: "TrialHandler imp g (ArgArray []) r m nm
      = TrialHandler imp g (ArgArray [NoTrial]) r m nm"
    by (simp add: TrialHandler_def prepareTrialList_def)
  have f: "1 \<le> nStim h \<and> nStim h = int (length (trialList h)) \<and> nTotal h = r' * nStim h"
    if t: "TrialHandler imp g' a' r' m' nm' = Inr h"
  proof -
    have "in_row h" using constructed_in_row[OF t assms(2)] by simp
    then show ?thesis using constructed[OF t] by (simp add: in_row_def)
  qed
  have z: "nTotal h0 = 0 \<and> trialSequence h0 = [] \<and> nRemaining h0 = 0
      \<and> nRemaining (advance k h0) = - int k"
    using c by (simp add: advance_counts)
  show ?thesis using z d e f by blast
qed

theorem no_repeats_no_trials_witness:
  "TrialHandler no_resources zero_draws (ArgArray colours) 0 (Some RANDOM) Undefined
     = Inr (projr colours_never)
   \<and> (\<forall>s. no_resources s \<noteq> Inr [])
   \<and> nTotal (projr colours_never) = 0 \<and> trialSequence (projr colours_never) = []
   \<and> fst (iterator_next (advance 3 (projr colours_never))) = Done
   \<and> nRemaining (advance 3 (projr colours_never)) = - 3
   \<and> TrialHandler no_resources zero_draws (ArgArray []) 2 (Some SEQUENTIAL) Undefined
       = Inr (projr empty_twice)
   \<and> 1 \<le> nStim (projr empty_twice)
   \<and> nTotal (projr empty_twice) = 2 * nStim (projr empty_twice)"
proof -
  have a: "TrialHandler no_resources zero_draws (ArgArray colours) 0 (Some RANDOM) Undefined
      = Inr (projr colours_never)"
    unfolding colours_never_def[symmetric] by (simp add: colours_never_value)
  have b: "\<forall>s. no_resources s \<noteq> Inr []" by (simp add: no_resources_def)
  have e: "TrialHandler no_resources zero_draws (ArgArray []) 2 (Some SEQUENTIAL) Undefined
      = Inr (projr empty_twice)"
    unfolding empty_twice_def[symmetric] by (simp add: empty_twice_value)
  note t = no_repeats_no_trials[OF a b, where k = 3 and g' = zero_draws and a' = "ArgArray []"
      and r' = 2 and m' = "Some SEQUENTIAL" and nm' = Undefined and h = "projr empty_twice"]
  have x: "1 \<le> nStim (projr empty_twice)
      \<and> nTotal (projr empty_twice) = 2 * nStim (projr empty_twice)"
    using t e by blast
  have y: "nTotal (projr colours_never) = 0 \<and> trialSequence (projr colours_never) = []
      \<and> fst (iterator_next (advance 3 (projr colours_never))) = Done
      \<and> nRemaining (advance 3 (projr colours_never)) = - 3"
    using t by simp
  show ?thesis using a b e x y by blast
qed

theorem empty_list_counterexample:
  "\<not> isl empty_twice
   \<and> nStim (projr empty_twice) = 1 \<and> nTotal (projr empty_twice) = 2
   \<and> trialSequence (projr empty_twice) = [[0], [0]]
   \<and> fst (iterator_next (projr empty_twice)) = Value NoTrial
   \<and> nRemaining (projr empty_twice) = 2"
  by (simp add: empty_twice_value iterator_next_def Let_def js_index_def trial_at_def)

section \<open>The sequential ordering\<close>

lemma fold_upt_Suc:
  "fold f [0..<Suc n] a = fold (\<lambda>k. f (Suc k)) [0..<n] (f 0 a)"
proof -
  have "[0..<Suc n] = 0 # map Suc [0..<n]"
    by (simp add: upt_conv_Cons map_Suc_upt del: upt_Suc)
  then show ?thesis by (simp add: fold_map comp_def del: upt_Suc)
qed

lemma next_pair: "iterator_next h = (fst (iterator_next h), snd (iterator_next h))"
  by simp

lemma forEach_run:
  assumes "in_row h" and "length (trialSequence h) = nat (nReps h)" and "0 \<le> lin h + 1"
    and "n = nat (nReps h * nStim h - (lin h + 1))"
  shows "forEach callback h acc =
     Some (Inr (fold (\<lambda>k. callback (thisTrial (advance (Suc k) h)) (advance (Suc k) h))
                  [0..<n] acc),
           advance (Suc n) h)"
  using assms
proof (induction n arbitrary: h acc)
  case 0
  then have "nReps h * nStim h \<le> lin h + 1" by simp
  then have d: "fst (iterator_next h) = Done" using next_done_iff[OF "0.prems"(1)] by simp
  obtain h' where e: "iterator_next h = (Done, h')"
    using d by (cases "iterator_next h") simp
  show ?case by (subst forEach.simps) (simp add: e)
next
  case (Suc n)
  let ?h' = "snd (iterator_next h)"
  have lt: "lin h + 1 < nReps h * nStim h" using Suc.prems(4) by linarith
  have v: "fst (iterator_next h) = Value (thisTrial ?h')"
    using next_value(1,3)[OF Suc.prems(1) Suc.prems(3) lt Suc.prems(2)] by simp
  obtain h' where e: "iterator_next h = (Value (thisTrial h'), h')"
    using v by (cases "iterator_next h") simp
  have h': "?h' = h'" by (simp add: e)
  have r: "in_row ?h'" and l: "lin ?h' = lin h + 1"
    using next_in_row[OF Suc.prems(1)] by simp_all
  have n: "n = nat (nReps ?h' * nStim ?h' - (lin ?h' + 1))"
    using Suc.prems(4) by (simp add: next_frame l)
  have ih: "forEach callback ?h' (callback (thisTrial ?h') ?h' acc) =
     Some (Inr (fold (\<lambda>k. callback (thisTrial (advance (Suc k) ?h')) (advance (Suc k) ?h'))
                  [0..<n] (callback (thisTrial ?h') ?h' acc)),
           advance (Suc n) ?h')"
    using Suc.IH[OF r _ _ n] Suc.prems(2,3) by (simp add: next_frame l)
  have "forEach callback h acc = forEach callback h' (callback (thisTrial h') h' acc)"
    by (subst forEach.simps) (simp add: e)
  then show ?case using ih unfolding h' fold_upt_Suc by (simp add: e)
qed

lemma fold_visit:
  "fold (\<lambda>k. visit (v k) (s k)) ks acc = acc @ map (\<lambda>k. (thisIndex (s k), v k)) ks"
  by (induction ks arbitrary: acc) (simp_all add: visit_def)

lemma map_mod_concat:
  "map (\<lambda>k. f (k mod S)) [0..<R * S] = concat (replicate R (map f [0..<S]))"
proof (induction R)
  case 0
  show ?case by simp
next
  case (Suc R)
  have a: "Suc R * S = R * S + S" by simp
  have b: "[0..<R * S + S] = [0..<R * S] @ [R * S..<R * S + S]"
    using upt_add_eq_append[of 0 "R * S" S] by simp
  have c: "[R * S..<R * S + S] = map (\<lambda>i. i + R * S) [0..<S]"
    by (metis map_add_upt add.commute)
  have d: "map (\<lambda>k. f (k mod S)) (map (\<lambda>i. i + R * S) [0..<S]) = map f [0..<S]"
    by (simp add: comp_def)
  have e: "replicate (Suc R) (map f [0..<S]) = replicate R (map f [0..<S]) @ [map f [0..<S]]"
    by (simp add: replicate_append_same)
  show ?case
    unfolding a b c e by (simp only: map_append d concat_append Suc) simp
qed


lemma run_index:
  assumes "TrialHandler imp g a r m nm = Inr h0" and "\<forall>s. imp s \<noteq> Inr []"
    and "int k < nReps h0 * nStim h0"
  shows "thisIndex (advance (Suc k) h0)
           = js_index (trialSequence h0 ! nat (int k div nStim h0)) (int k mod nStim h0)"
    and "thisTrial (advance (Suc k) h0) = trial_at (trialList h0) (thisIndex (advance (Suc k) h0))"
proof -
  note c = constructed[OF assms(1)]
  have row: "in_row h0" and l: "lin h0 = - 1"
    using constructed_in_row[OF assms(1,2)] by simp_all
  have p: "in_row (advance k h0)" "lin (advance k h0) + 1 = int k"
    using advance_in_row[OF row] l by simp_all
  have q: "length (trialSequence (advance k h0)) = nat (nReps (advance k h0))"
    using c by (simp add: advance_frame)
  have lt: "lin (advance k h0) + 1 < nReps (advance k h0) * nStim (advance k h0)"
    using assms(3) by (simp add: p advance_frame)
  have ge: "0 \<le> lin (advance k h0) + 1" by (simp add: p)
  show "thisIndex (advance (Suc k) h0)
           = js_index (trialSequence h0 ! nat (int k div nStim h0)) (int k mod nStim h0)"
    unfolding advance_Suc using next_value(2)[OF p(1) ge lt q] by (simp add: p advance_frame)
  show "thisTrial (advance (Suc k) h0) = trial_at (trialList h0) (thisIndex (advance (Suc k) h0))"
    unfolding advance_Suc using next_value(2,3)[OF p(1) ge lt q] by (simp add: p advance_frame)
qed

lemma forEach_constructed:
  assumes "TrialHandler imp g a r m nm = Inr h0" and "\<forall>s. imp s \<noteq> Inr []"
    and "n = nat (nReps h0 * nStim h0)"
  shows "forEach visit h0 []
           = Some (Inr (map (\<lambda>k. (thisIndex (advance (Suc k) h0), thisTrial (advance (Suc k) h0)))
                          [0..<n]),
                   advance (Suc n) h0)"
proof -
  note c = constructed[OF assms(1)]
  have row: "in_row h0" and l: "lin h0 = - 1"
    using constructed_in_row[OF assms(1,2)] by simp_all
  have n: "n = nat (nReps h0 * nStim h0 - (lin h0 + 1))" using assms(3) l by simp
  have len: "length (trialSequence h0) = nat (nReps h0)" using c by simp
  show ?thesis
    using forEach_run[OF row len _ n, of visit "[]"] l by (simp add: fold_visit)
qed

lemma sequential_index:
  assumes "k < R * S"
  shows "js_index (replicate R (map int [0..<S]) ! nat (int k div int S)) (int k mod int S)
           = Some (int (k mod S))"
proof -
  have S: "0 < S" using assms by (cases S) simp_all
  have "k div S < R" using assms S by (simp add: less_mult_imp_div_less)
  then have "replicate R (map int [0..<S]) ! nat (int k div int S) = map int [0..<S]"
    by (simp add: zdiv_int[symmetric])
  moreover have "int k mod int S = int (k mod S)" by (simp add: zmod_int)
  ultimately show ?thesis using S by (simp add: js_index_def)
qed

lemma array_without_import:
  "TrialHandler imp g (ArgArray ts) r m nm = TrialHandler no_resources g (ArgArray ts) r m nm"
  by (simp add: TrialHandler_def prepareTrialList_def)

lemma no_resources_nonempty: "\<forall>s. no_resources s \<noteq> Inr []"
  by (simp add: no_resources_def)

text \<open>
  C2. For a trial list that is not empty and a repetition count \<open>r\<close> with \<open>0 < r < 2^32\<close>,
  the constructor with the method \<^verbatim>\<open>SEQUENTIAL\<close> returns a handler whose sequence has \<open>r\<close>
  rows, each the identity \<open>[0, ..., nStim - 1]\<close>, and \<^verbatim>\<open>forEach\<close> on that handler
  terminates, having passed to the callback \<open>r\<close> times in a row the trials of the list in
  their order, each with its index: \<open>r * nStim\<close> trials in all.
\<close>

theorem sequential_run:
  assumes "ts \<noteq> []" and "0 < r" and "r < 2 ^ 32"
  shows "\<exists>h0 hn.
      TrialHandler imp g (ArgArray ts) r (Some SEQUENTIAL) nm = Inr h0
    \<and> trialSequence h0 = replicate (nat r) (map int [0..<length ts])
    \<and> forEach visit h0 []
        = Some (Inr (concat (replicate (nat r) (map (\<lambda>i. (Some (int i), ts ! i)) [0..<length ts]))),
                hn)
    \<and> length (concat (replicate (nat r) (map (\<lambda>i. (Some (int i), ts ! i)) [0..<length ts])))
        = nat r * length ts"
proof -
  let ?S = "length ts" and ?R = "nat r"
  obtain h0 where h0: "TrialHandler imp g (ArgArray ts) r (Some SEQUENTIAL) nm = Inr h0"
    and sq: "trialSequence h0 = replicate ?R (map int [0..<?S])"
    and tl: "trialList h0 = ts"
    using assms
    by (simp add: TrialHandler_def prepareTrialList_def prepareSequence_def indices_of_def Let_def)
  have h0': "TrialHandler no_resources g (ArgArray ts) r (Some SEQUENTIAL) nm = Inr h0"
    using h0 array_without_import[of imp g ts r "Some SEQUENTIAL" nm] by simp
  note c = constructed[OF h0']
  have S: "0 < ?S" using assms(1) by simp
  have R: "nReps h0 = int ?R" "nStim h0 = int ?S" using c tl assms(2) by simp_all
  have tot: "nReps h0 * nStim h0 = int (?R * ?S)" by (simp add: R)
  have step: "(thisIndex (advance (Suc k) h0), thisTrial (advance (Suc k) h0))
      = (Some (int (k mod ?S)), ts ! (k mod ?S))" if "k < ?R * ?S" for k
  proof -
    have lt: "int k < nReps h0 * nStim h0" using that by (simp only: tot of_nat_less_iff)
    have i: "thisIndex (advance (Suc k) h0) = Some (int (k mod ?S))"
      using run_index(1)[OF h0' no_resources_nonempty lt] sequential_index[OF that]
      by (simp add: sq R)
    have "k mod ?S < ?S" using S by simp
    then have "trial_at ts (Some (int (k mod ?S))) = ts ! (k mod ?S)"
      by (simp add: trial_at_def js_index_def)
    then show ?thesis
      using run_index(2)[OF h0' no_resources_nonempty lt] i tl by simp
  qed
  have "map (\<lambda>k. (thisIndex (advance (Suc k) h0), thisTrial (advance (Suc k) h0))) [0..<?R * ?S]
      = map (\<lambda>k. (Some (int (k mod ?S)), ts ! (k mod ?S))) [0..<?R * ?S]"
    using step by simp
  also have "\<dots> = concat (replicate ?R (map (\<lambda>i. (Some (int i), ts ! i)) [0..<?S]))"
    using map_mod_concat[of "\<lambda>i. (Some (int i), ts ! i)" ?S ?R] by simp
  finally have m: "map (\<lambda>k. (thisIndex (advance (Suc k) h0), thisTrial (advance (Suc k) h0)))
        [0..<?R * ?S]
      = concat (replicate ?R (map (\<lambda>i. (Some (int i), ts ! i)) [0..<?S]))" .
  have n: "?R * ?S = nat (nReps h0 * nStim h0)" by (simp only: tot nat_int)
  have run: "forEach visit h0 []
      = Some (Inr (concat (replicate ?R (map (\<lambda>i. (Some (int i), ts ! i)) [0..<?S]))),
              advance (Suc (?R * ?S)) h0)"
    using forEach_constructed[OF h0' no_resources_nonempty n] unfolding m .
  have len: "length (concat (replicate ?R (map (\<lambda>i. (Some (int i), ts ! i)) [0..<?S])))
      = ?R * ?S"
    unfolding m[symmetric] by simp
  show ?thesis using h0 sq run len by blast
qed

theorem sequential_run_witness:
  "colours \<noteq> [] \<and> (0::int) < 2 \<and> (2::int) < 2 ^ 32
   \<and> (\<exists>h0 hn.
        TrialHandler no_resources zero_draws (ArgArray colours) 2 (Some SEQUENTIAL) (Str ''trials'')
          = Inr h0
      \<and> trialSequence h0 = [[0, 1], [0, 1]]
      \<and> forEach visit h0 []
          = Some (Inr [(Some 0, Trial [(''word'', Str ''red'')]),
                       (Some 1, Trial [(''word'', Str ''green'')]),
                       (Some 0, Trial [(''word'', Str ''red'')]),
                       (Some 1, Trial [(''word'', Str ''green'')])], hn))"
proof -
  have a: "colours \<noteq> []" by (simp add: colours_def)
  have e: "replicate (nat 2) (map int [0..<length colours]) = [[0, 1], [0, 1]]"
    by (simp add: colours_def numeral_2_eq_2)
  have f: "concat (replicate (nat 2) (map (\<lambda>i. (Some (int i), colours ! i)) [0..<length colours]))
      = [(Some 0, Trial [(''word'', Str ''red'')]), (Some 1, Trial [(''word'', Str ''green'')]),
         (Some 0, Trial [(''word'', Str ''red'')]), (Some 1, Trial [(''word'', Str ''green'')])]"
    by (simp add: colours_def numeral_2_eq_2)
  have w: "\<exists>h0 hn.
        TrialHandler no_resources zero_draws (ArgArray colours) 2 (Some SEQUENTIAL) (Str ''trials'')
          = Inr h0
      \<and> trialSequence h0 = [[0, 1], [0, 1]]
      \<and> forEach visit h0 []
          = Some (Inr [(Some 0, Trial [(''word'', Str ''red'')]),
                       (Some 1, Trial [(''word'', Str ''green'')]),
                       (Some 0, Trial [(''word'', Str ''red'')]),
                       (Some 1, Trial [(''word'', Str ''green'')])], hn)"
    using sequential_run[OF a, of 2 no_resources zero_draws "Str ''trials''"]
    unfolding e f by auto
  show ?thesis using a w by simp
qed

section \<open>Looking ahead and behind\<close>

lemma colours_twice_first:
  "advance 1 (projr colours_twice) =
     \<lparr> trialList = colours, nReps = 2, method_ = SEQUENTIAL, name = Str ''trials'',
       nStim = 2, nTotal = 4, nRemaining = 3, thisRepN = 0, thisTrialN = 0, thisN = 0,
       thisIndex = Some 0, ran = 1, order = 0, snapshots = [],
       trialSequence = [[0, 1], [0, 1]], thisTrial = Trial [(''word'', Str ''red'')],
       finished = Bool False, attrs = (\<lambda>_. Undefined) \<rparr>"
  by (simp add: colours_twice_value iterator_next_def Let_def js_index_def trial_at_def
      colours_def)

lemma colours_twice_second:
  "advance 2 (projr colours_twice) =
     \<lparr> trialList = colours, nReps = 2, method_ = SEQUENTIAL, name = Str ''trials'',
       nStim = 2, nTotal = 4, nRemaining = 2, thisRepN = 0, thisTrialN = 1, thisN = 1,
       thisIndex = Some 1, ran = 1, order = 1, snapshots = [],
       trialSequence = [[0, 1], [0, 1]], thisTrial = Trial [(''word'', Str ''green'')],
       finished = Bool False, attrs = (\<lambda>_. Undefined) \<rparr>"
  by (simp add: eval_nat_numeral colours_twice_value iterator_next_def Let_def js_index_def
      trial_at_def colours_def)

text \<open>
  C9 fails on the code. \<^verbatim>\<open>getFutureTrial\<close> is documented to return the nth future or
  past trial and \<^verbatim>\<open>undefined\<close> only beyond the last trial, and its guard compares \<open>n\<close> with
  the number of remaining trials; but it reads the entry \<^verbatim>\<open>thisIndex + n\<close> of the trial
  list, not the trial \<open>n\<close> steps ahead in the sequence. In two sequential repeats of two
  trials, after two calls of \<^verbatim>\<open>next\<close> two trials remain and the next one is the first trial
  of the list, yet \<^verbatim>\<open>getFutureTrial(1)\<close> is \<^verbatim>\<open>undefined\<close>; after one call three trials remain
  and \<^verbatim>\<open>getFutureTrial(2)\<close> is \<^verbatim>\<open>undefined\<close>.
\<close>

theorem getFutureTrial_misses_run:
  "thisIndex (advance 2 (projr colours_twice)) = Some 1
   \<and> nRemaining (advance 2 (projr colours_twice)) = 2
   \<and> getFutureTrial (advance 2 (projr colours_twice)) 1 = NoTrial
   \<and> fst (iterator_next (advance 2 (projr colours_twice))) = Value (Trial [(''word'', Str ''red'')])
   \<and> thisIndex (advance 1 (projr colours_twice)) = Some 0
   \<and> nRemaining (advance 1 (projr colours_twice)) = 3
   \<and> nTotal (advance 1 (projr colours_twice)) = 4
   \<and> getFutureTrial (advance 1 (projr colours_twice)) 2 = NoTrial"
  unfolding colours_twice_second colours_twice_first
  by (simp add: getFutureTrial_def trial_at_def js_index_def colours_def iterator_next_def Let_def)

section \<open>Reserved names in a snapshot\<close>

lemma labelled_first:
  "advance 1 (projr labelled_once) =
     \<lparr> trialList = labelled, nReps = 1, method_ = SEQUENTIAL, name = Undefined,
       nStim = 1, nTotal = 1, nRemaining = 0, thisRepN = 0, thisTrialN = 0, thisN = 0,
       thisIndex = Some 0, ran = 1, order = 0, snapshots = [],
       trialSequence = [[0]],
       thisTrial = Trial [(''word'', Str ''red''), (''nStim'', Num 99), (''length'', Num 5)],
       finished = Bool False, attrs = (\<lambda>_. Undefined) \<rparr>"
  by (simp add: labelled_once_def TrialHandler_def prepareTrialList_def prepareSequence_def
      indices_of_def Let_def iterator_next_def js_index_def trial_at_def labelled_def)

lemma excluded_keys:
  "index_keys (length excludedAttributes)
     = map (\<lambda>c. [c]) ''0123456789''"
  by code_simp

lemma reserved_not_in:
  assumes "attribute \<in> set excludedAttributes" and "attribute \<notin> set inherited"
  shows "\<not> js_in inherited attribute excludedAttributes"
proof -
  have "attribute \<notin> set (index_keys (length excludedAttributes))"
    using assms(1) unfolding excluded_keys by (auto simp add: excludedAttributes_def)
  moreover have "attribute \<noteq> ''length''"
    using assms(1) by (auto simp add: excludedAttributes_def)
  ultimately show ?thesis using assms(2) by (simp add: js_in_def)
qed

text \<open>
  C7 fails on the code. The test \<^verbatim>\<open>attribute in excludedAttributes\<close> asks whether the
  array has a property of that name, not whether the name is one of its elements, so no
  reserved name is caught (\<open>reserved_not_in\<close>). For the current trial
  \<^verbatim>\<open>{word: 'red', nStim: 99, length: 5}\<close> the snapshot gets \<^verbatim>\<open>nStim = 99\<close> in place of the
  counter and lists \<^verbatim>\<open>nStim\<close> among the trial attributes, without a warning; the field
  \<^verbatim>\<open>length\<close>, which is not reserved, is dropped with the warning.
\<close>

theorem reserved_field_kept:
  "fst (getSnapshot array_chain (advance 1 (projr labelled_once))) = (0, [warning ''length''])
   \<and> (snapshots (snd (getSnapshot array_chain (advance 1 (projr labelled_once)))) ! 0) ''nStim''
       = Num 99
   \<and> (snapshots (snd (getSnapshot array_chain (advance 1 (projr labelled_once)))) ! 0) ''length''
       = Undefined
   \<and> (snapshots (snd (getSnapshot array_chain (advance 1 (projr labelled_once)))) ! 0)
         ''trialAttributes'' = StrArray [''word'', ''nStim'']"
  unfolding labelled_first
  by (simp add: getSnapshot_def getCurrentTrial_def trial_at_def js_index_def labelled_def
      for_in_def copy_attribute_def js_in_def excluded_keys array_chain_def
      trial_get_def snapshot_literal_def Let_def)

section \<open>A snapshot taken and restored at once\<close>

lemma not_index_key:
  "length k \<noteq> 1 \<Longrightarrow> k \<notin> set (index_keys (length excludedAttributes))"
  unfolding excluded_keys by auto

lemma word_not_excluded: "\<not> js_in array_chain ''word'' excludedAttributes"
  by (simp add: js_in_def not_index_key array_chain_def)

lemma marked_value:
  "marked =
     \<lparr> trialList = colours, nReps = 2, method_ = SEQUENTIAL, name = Str ''trials'',
       nStim = 2, nTotal = 4, nRemaining = 3, thisRepN = 0, thisTrialN = 0, thisN = 0,
       thisIndex = Some 0, ran = 1, order = 0, snapshots = [],
       trialSequence = [[0, 1], [0, 1]], thisTrial = Trial [(''word'', Str ''red'')],
       finished = Bool True, attrs = (\<lambda>_. Undefined) \<rparr>"
  unfolding marked_def colours_twice_first by (simp add: set_finished_def)

lemma captured_value:
  "captured = marked\<lparr> snapshots :=
     [(snapshot_literal marked)(''word'' := Str ''red'', ''trialAttributes'' := StrArray [''word''])] \<rparr>"
  unfolding captured_def
  by (simp add: getSnapshot_def getCurrentTrial_def marked_value trial_at_def js_index_def
      colours_def for_in_def copy_attribute_def word_not_excluded trial_get_def Let_def)

lemma empty_twice_first:
  "advance 1 (projr empty_twice) =
     \<lparr> trialList = [NoTrial], nReps = 2, method_ = SEQUENTIAL, name = Undefined,
       nStim = 1, nTotal = 2, nRemaining = 1, thisRepN = 0, thisTrialN = 0, thisN = 0,
       thisIndex = Some 0, ran = 1, order = 0, snapshots = [],
       trialSequence = [[0], [0]], thisTrial = NoTrial,
       finished = Bool False, attrs = (\<lambda>_. Undefined) \<rparr>"
  by (simp add: empty_twice_value iterator_next_def Let_def js_index_def trial_at_def)

lemma blank_captured_value:
  "blank_captured = (advance 1 (projr empty_twice))\<lparr> snapshots :=
     [snapshot_literal (advance 1 (projr empty_twice))] \<rparr>"
  unfolding blank_captured_def empty_twice_first
  by (simp add: getSnapshot_def getCurrentTrial_def trial_at_def js_index_def for_in_def Let_def)

text \<open>
  C4 fails on the code. \<^verbatim>\<open>fromSnapshot\<close> assigns \<^verbatim>\<open>snapshot._finished\<close>, a property no
  snapshot has, to the finished flag: a handler whose loop was marked finished after its
  first trial has the flag \<^verbatim>\<open>true\<close> before \<^verbatim>\<open>getSnapshot\<close> and \<^verbatim>\<open>undefined\<close> after the
  \<^verbatim>\<open>fromSnapshot\<close> that follows at once, though the snapshot holds \<^verbatim>\<open>finished = true\<close>.
  And where the current trial has no field, as the undefined trial of the default trial
  list, \<^verbatim>\<open>getSnapshot\<close> never sets \<^verbatim>\<open>trialAttributes\<close> and \<^verbatim>\<open>fromSnapshot\<close> raises a
  TypeError in its last loop.
\<close>

theorem restore_loses_finished:
  "fst (getSnapshot array_chain marked) = (0, [])
   \<and> finished captured = Bool True
   \<and> (snapshots captured ! 0) ''finished'' = Bool True
   \<and> fst (fromSnapshot (Some (snapshots captured ! 0)) captured) = None
   \<and> finished (snd (fromSnapshot (Some (snapshots captured ! 0)) captured)) = Undefined
   \<and> fst (fromSnapshot (Some (snapshots blank_captured ! 0)) blank_captured) = Some TypeError"
proof -
  have 1: "fst (getSnapshot array_chain marked) = (0, [])"
    by (simp add: getSnapshot_def getCurrentTrial_def marked_value trial_at_def js_index_def
      colours_def for_in_def copy_attribute_def word_not_excluded trial_get_def Let_def)
  have 2: "finished captured = Bool True"
    "(snapshots captured ! 0) ''finished'' = Bool True"
    by (simp_all add: captured_value marked_value snapshot_literal_def)
  have 3: "fromSnapshot (Some (snapshots captured ! 0)) captured
      = (None, captured\<lparr> finished := Undefined,
                            attrs := (attrs captured)(''word'' := Str ''red'') \<rparr>)"
    by (simp add: captured_value marked_value snapshot_literal_def fromSnapshot_def
        restore_counters_def is_num_def is_index_def num_of_def index_of_def index_val_def
        getCurrentTrial_def trial_at_def js_index_def colours_def assign_def other_members_def
        is_private_def)
  have 4: "fst (fromSnapshot (Some (snapshots blank_captured ! 0)) blank_captured) = Some TypeError"
    unfolding blank_captured_value empty_twice_first
    by (simp add: snapshot_literal_def fromSnapshot_def
        restore_counters_def is_num_def is_index_def num_of_def index_of_def index_val_def
        getCurrentTrial_def trial_at_def js_index_def)
  show ?thesis using 1 2 4 unfolding 3 by simp
qed

section \<open>Snapshots and the live handler\<close>

lemma getSnapshot_appends:
  "\<exists>s. snapshots (snd (getSnapshot inherited h)) = snapshots h @ [s]"
  by (simp add: getSnapshot_def Let_def split: prod.splits)

lemma assign_keeps_snapshots:
  assumes "attribute \<noteq> ''finished''" and "assign attribute v h = Inr h'"
  shows "snapshots h' = snapshots h"
proof -
  have c: "set_counter store v = Inr h' \<Longrightarrow> \<exists>k. h' = store k" for store
    by (cases v) (auto simp add: set_counter_def)
  show ?thesis
    using assms(2) assms(1) unfolding assign_def
    by (auto split: if_splits dest!: c)
qed

lemma restore_attributes_keeps_snapshots:
  "''finished'' \<notin> set names \<Longrightarrow> snapshots (snd (restore_attributes s names h)) = snapshots h"
proof (induction names arbitrary: h)
  case Nil
  show ?case by simp
next
  case (Cons a names)
  show ?case
  proof (cases "assign a (s a) h")
    case (Inl e)
    then show ?thesis by simp
  next
    case (Inr h')
    have "a \<noteq> ''finished''" using Cons.prems by auto
    then have "snapshots h' = snapshots h" using assign_keeps_snapshots Inr by blast
    moreover have "snapshots (snd (restore_attributes s names h')) = snapshots h'"
      using Cons.IH[of h'] Cons.prems by simp
    ultimately show ?thesis using Inr by simp
  qed
qed

lemma restore_counters_keeps_snapshots:
  "restore_counters s h = Inr h1 \<Longrightarrow> snapshots h1 = snapshots h"
  by (auto simp add: restore_counters_def split: if_splits)

lemma fromSnapshot_keeps_snapshots:
  assumes "s ''trialAttributes'' = StrArray names" and "''finished'' \<notin> set names"
  shows "snapshots (snd (fromSnapshot (Some s) h)) = snapshots h"
proof (cases "s ''handler'' = HandlerRef")
  case False
  then show ?thesis by (simp add: fromSnapshot_def)
next
  case True
  show ?thesis
  proof (cases "restore_counters s h")
    case (Inl e)
    then show ?thesis using True by (simp add: fromSnapshot_def)
  next
    case (Inr h1)
    have "snapshots h1 = snapshots h" using restore_counters_keeps_snapshots[OF Inr] .
    then show ?thesis
      using True Inr assms(1) restore_attributes_keeps_snapshots[OF assms(2)]
      by (simp add: fromSnapshot_def Let_def)
  qed
qed

lemma held_value:
  "held = (advance 1 (projr colours_twice))\<lparr> snapshots :=
     [(snapshot_literal (advance 1 (projr colours_twice)))
        (''word'' := Str ''red'', ''trialAttributes'' := StrArray [''word''])] \<rparr>"
  unfolding held_def colours_twice_first
  by (simp add: getSnapshot_def getCurrentTrial_def trial_at_def js_index_def
      colours_def for_in_def copy_attribute_def word_not_excluded trial_get_def Let_def)

lemma getSnapshot_ref: "fst (fst (getSnapshot inherited h)) = length (snapshots h)"
  by (simp add: getSnapshot_def Let_def split: prod.splits)

lemma next_ignores_put:
  "fst (iterator_next (snapshot_put r key v h)) = fst (iterator_next h)"
  "snd (iterator_next (snapshot_put r key v h)) = snapshot_put r key v (snd (iterator_next h))"
  by (simp_all add: snapshot_put_def iterator_next_eq Let_def split: option.splits)

lemma lookups_ignore_put:
  "getCurrentTrial (snapshot_put r key v h) = getCurrentTrial h"
  "getTrial (snapshot_put r key v h) i = getTrial h i"
  "getFutureTrial (snapshot_put r key v h) n = getFutureTrial h n"
  by (simp_all add: snapshot_put_def getCurrentTrial_def getTrial_def getFutureTrial_def
      split: option.splits)

lemma held_next:
  "snd (iterator_next held) =
     \<lparr> trialList = colours, nReps = 2, method_ = SEQUENTIAL, name = Str ''trials'',
       nStim = 2, nTotal = 4, nRemaining = 2, thisRepN = 0, thisTrialN = 1, thisN = 1,
       thisIndex = Some 1, ran = 1, order = 1, snapshots = snapshots held,
       trialSequence = [[0, 1], [0, 1]], thisTrial = Trial [(''word'', Str ''green'')],
       finished = Bool False, attrs = (\<lambda>_. Undefined) \<rparr>"
  unfolding held_value colours_twice_first
  by (simp add: iterator_next_def Let_def js_index_def trial_at_def colours_def)

lemma held_twice_snapshots:
  "snapshots held_twice =
     snapshots held @
     [(snapshot_literal (snd (iterator_next held)))
        (''word'' := Str ''green'', ''trialAttributes'' := StrArray [''word''])]"
  unfolding held_twice_def
  by (simp add: getSnapshot_def getCurrentTrial_def held_next trial_at_def js_index_def
      colours_def for_in_def copy_attribute_def word_not_excluded trial_get_def Let_def)

lemma colours_twice_step:
  "snd (iterator_next (projr colours_twice)) =
     \<lparr> trialList = colours, nReps = 2, method_ = SEQUENTIAL, name = Str ''trials'',
       nStim = 2, nTotal = 4, nRemaining = 3, thisRepN = 0, thisTrialN = 0, thisN = 0,
       thisIndex = Some 0, ran = 1, order = 0, snapshots = [],
       trialSequence = [[0, 1], [0, 1]], thisTrial = Trial [(''word'', Str ''red'')],
       finished = Bool False, attrs = (\<lambda>_. Undefined) \<rparr>"
  using colours_twice_first by simp

lemma held_twice_fields:
  "length (snapshots held_twice) = 2"
  "(snapshots held_twice ! 0) ''thisN'' = Num 0"
  "(snapshots held_twice ! 1) ''thisN'' = Num 1"
  "(snapshots held_twice ! 1) ''word'' = Str ''green''"
  "(snapshots held_twice ! 1) ''trialAttributes'' = StrArray [''word'']"
proof -
  have l: "length (snapshots held) = 1" unfolding held_value by simp
  show "length (snapshots held_twice) = 2" by (simp add: held_twice_snapshots l)
  have z: "snapshots held_twice ! 0 = snapshots held ! 0"
    by (simp add: held_twice_snapshots nth_append l)
  show "(snapshots held_twice ! 0) ''thisN'' = Num 0"
    unfolding z by (simp add: held_value colours_twice_step snapshot_literal_def)
  have e: "snapshots held_twice ! 1
      = (snapshot_literal (snd (iterator_next held)))
          (''word'' := Str ''green'', ''trialAttributes'' := StrArray [''word''])"
    by (simp add: held_twice_snapshots nth_append l)
  show "(snapshots held_twice ! 1) ''thisN'' = Num 1"
    "(snapshots held_twice ! 1) ''word'' = Str ''green''"
    "(snapshots held_twice ! 1) ''trialAttributes'' = StrArray [''word'']"
    unfolding e by (simp_all add: held_next snapshot_literal_def)
qed

text \<open>
  C10, as the code has it. The snapshots a handler has given out stay as they are under a
  call of \<^verbatim>\<open>next\<close>, under a later \<^verbatim>\<open>getSnapshot\<close> (which appends a new object and returns
  it) and under \<^verbatim>\<open>fromSnapshot\<close> of a snapshot whose trial attributes do not include
  \<^verbatim>\<open>finished\<close>. An assignment to a property of one snapshot changes no other snapshot of
  the handler and nothing else of the handler, and \<^verbatim>\<open>next\<close>, \<^verbatim>\<open>getCurrentTrial\<close>,
  \<^verbatim>\<open>getTrial\<close> and \<^verbatim>\<open>getFutureTrial\<close> give the same results after it as before. Snapshots
  are not immutable: the setter of \<^verbatim>\<open>finished\<close> writes the new value into the property
  \<^verbatim>\<open>finished\<close> of every snapshot of the handler, and changes nothing else but the
  handler's own flag.
\<close>

theorem snapshots_follow_finished:
  "snapshots (snd (iterator_next h)) = snapshots h
   \<and> fst (fst (getSnapshot inherited h)) = length (snapshots h)
   \<and> length (snapshots (snd (getSnapshot inherited h))) = Suc (length (snapshots h))
   \<and> take (length (snapshots h)) (snapshots (snd (getSnapshot inherited h))) = snapshots h
   \<and> (s ''trialAttributes'' = StrArray names \<and> ''finished'' \<notin> set names
        \<longrightarrow> snapshots (snd (fromSnapshot (Some s) h)) = snapshots h)
   \<and> (r < length (snapshots h) \<and> r' < length (snapshots h) \<and> r' \<noteq> r
        \<longrightarrow> snapshots (snapshot_put r key v h) ! r' = snapshots h ! r'
          \<and> (snapshots (snapshot_put r key v h) ! r) key = v)
   \<and> (snapshot_put r key v h)\<lparr> snapshots := snapshots h \<rparr> = h
   \<and> fst (iterator_next (snapshot_put r key v h)) = fst (iterator_next h)
   \<and> snd (iterator_next (snapshot_put r key v h)) = snapshot_put r key v (snd (iterator_next h))
   \<and> getCurrentTrial (snapshot_put r key v h) = getCurrentTrial h
   \<and> getTrial (snapshot_put r key v h) i = getTrial h i
   \<and> getFutureTrial (snapshot_put r key v h) n = getFutureTrial h n
   \<and> snapshots (set_finished v h) = map (\<lambda>s. s(''finished'' := v)) (snapshots h)
   \<and> (set_finished v h)\<lparr> snapshots := snapshots h, finished := finished h \<rparr> = h"
proof -
  have 1: "snapshots (snd (iterator_next h)) = snapshots h" by (simp add: next_frame)
  obtain new where n: "snapshots (snd (getSnapshot inherited h)) = snapshots h @ [new]"
    using getSnapshot_appends by blast
  have 2: "length (snapshots (snd (getSnapshot inherited h))) = Suc (length (snapshots h))"
    "take (length (snapshots h)) (snapshots (snd (getSnapshot inherited h))) = snapshots h"
    using n by simp_all
  have 4: "r < length (snapshots h) \<and> r' < length (snapshots h) \<and> r' \<noteq> r
        \<longrightarrow> snapshots (snapshot_put r key v h) ! r' = snapshots h ! r'
          \<and> (snapshots (snapshot_put r key v h) ! r) key = v"
    by (simp add: snapshot_put_def)
  have 5: "(snapshot_put r key v h)\<lparr> snapshots := snapshots h \<rparr> = h"
    by (simp add: snapshot_put_def)
  have 6: "snapshots (set_finished v h) = map (\<lambda>s. s(''finished'' := v)) (snapshots h)"
    by (simp add: set_finished_def)
  have 7: "(set_finished v h)\<lparr> snapshots := snapshots h, finished := finished h \<rparr> = h"
    by (simp add: set_finished_def)
  have 3: "s ''trialAttributes'' = StrArray names \<and> ''finished'' \<notin> set names
        \<longrightarrow> snapshots (snd (fromSnapshot (Some s) h)) = snapshots h"
    using fromSnapshot_keeps_snapshots by blast
  show ?thesis
    using 3 4
    by (simp only: 1 getSnapshot_ref 2 5 6 7 next_ignores_put lookups_ignore_put simp_thms)
qed

theorem snapshots_follow_finished_witness:
  "(snapshots held_twice ! 1) ''trialAttributes'' = StrArray [''word'']
   \<and> ''finished'' \<notin> set [''word'']
   \<and> (1::nat) < length (snapshots held_twice) \<and> (0::nat) < length (snapshots held_twice)
   \<and> (0::nat) \<noteq> 1
   \<and> snapshots held_twice ! 0 = snapshots held ! 0
   \<and> (snapshots held_twice ! 0) ''thisN'' = Num 0
   \<and> (snapshots held_twice ! 1) ''thisN'' = Num 1
   \<and> snapshots (snapshot_put 1 ''thisN'' (Num 7) held_twice) ! 0 = snapshots held_twice ! 0
   \<and> (snapshots (snapshot_put 1 ''thisN'' (Num 7) held_twice) ! 1) ''thisN'' = Num 7
   \<and> fst (iterator_next (snapshot_put 1 ''thisN'' (Num 7) held_twice))
       = fst (iterator_next held_twice)
   \<and> snapshots (snd (fromSnapshot (Some (snapshots held_twice ! 1)) held_twice))
       = snapshots held_twice
   \<and> (snapshots (set_finished (Bool True) held_twice) ! 0) ''finished'' = Bool True
   \<and> (snapshots (set_finished (Bool True) held_twice) ! 1) ''finished'' = Bool True
   \<and> (snapshots (set_finished (Bool True) held_twice) ! 0) ''thisN'' = Num 0"
proof -
  note f = held_twice_fields
  have b: "''finished'' \<notin> set [''word'']" by simp
  have l1: "length (snapshots held) = 1" unfolding held_value by simp
  note A = snapshots_follow_finished[where h = held]
  note B = snapshots_follow_finished[where h = "snd (iterator_next held)"
      and inherited = array_chain]
  have k: "snapshots held_twice ! 0 = snapshots held ! 0"
  proof -
    have "snapshots (snd (iterator_next held)) = snapshots held" using A by blast
    moreover have "take (length (snapshots (snd (iterator_next held)))) (snapshots held_twice)
        = snapshots (snd (iterator_next held))"
      using B unfolding held_twice_def by blast
    ultimately have "take 1 (snapshots held_twice) = snapshots held" using l1 by simp
    then have "take 1 (snapshots held_twice) ! 0 = snapshots held ! 0" by simp
    then show ?thesis by simp
  qed
  note C = snapshots_follow_finished[where h = held_twice and s = "snapshots held_twice ! 1"
      and names = "[''word'']" and r = 1 and r' = 0 and key = "''thisN''" and v = "Num 7"]
  have hy: "(1::nat) < length (snapshots held_twice) \<and> (0::nat) < length (snapshots held_twice)
      \<and> (0::nat) \<noteq> 1"
    using f by simp
  have p: "snapshots (snapshot_put 1 ''thisN'' (Num 7) held_twice) ! 0 = snapshots held_twice ! 0"
    "(snapshots (snapshot_put 1 ''thisN'' (Num 7) held_twice) ! 1) ''thisN'' = Num 7"
    "fst (iterator_next (snapshot_put 1 ''thisN'' (Num 7) held_twice))
       = fst (iterator_next held_twice)"
    "snapshots (snd (fromSnapshot (Some (snapshots held_twice ! 1)) held_twice))
       = snapshots held_twice"
    using C f(5) b hy by blast+
  note D = snapshots_follow_finished[where h = held_twice and v = "Bool True"]
  have m: "snapshots (set_finished (Bool True) held_twice)
      = map (\<lambda>s. s(''finished'' := Bool True)) (snapshots held_twice)"
    using D by blast
  have q: "(snapshots (set_finished (Bool True) held_twice) ! 0) ''finished'' = Bool True"
    "(snapshots (set_finished (Bool True) held_twice) ! 1) ''finished'' = Bool True"
    "(snapshots (set_finished (Bool True) held_twice) ! 0) ''thisN'' = Num 0"
    unfolding m using f by simp_all
  show ?thesis using f(2,3,5) b hy k p q by blast
qed

theorem snapshot_changed_counterexample:
  "(snapshots held ! 0) ''finished'' = Bool False
   \<and> (snapshots (set_finished (Bool True) held) ! 0) ''finished'' = Bool True"
  unfolding held_value colours_twice_first
  by (simp add: snapshot_literal_def set_finished_def)

section \<open>The fully random ordering\<close>

lemma draw_in_range:
  assumes "0 \<le> x" and "x < 1"
  shows "nat \<lfloor>x * real (Suc k + 1)\<rfloor> \<le> Suc k"
proof -
  have "x * real (Suc k + 1) < real (Suc k + 1)"
    using assms by (simp add: mult_less_cancel_right1)
  then have "\<lfloor>x * real (Suc k + 1)\<rfloor> < int (Suc k + 1)"
    by (simp add: floor_less_iff)
  then show ?thesis by simp
qed

lemma in_unit_shift: "in_unit g \<Longrightarrow> in_unit (\<lambda>n. g (Suc n))"
  by (simp add: in_unit_def)

lemma length_swap: "length (swap i j xs) = length xs"
  by (simp add: swap_def)

lemma mset_swap_list: "i < length xs \<Longrightarrow> j < length xs \<Longrightarrow> mset (swap i j xs) = mset xs"
  unfolding swap_def using mset_swap[of j xs i] by simp

lemma length_shuffle_from: "length (fst (shuffle_from k xs g)) = length xs"
  by (induction k arbitrary: xs g) (simp_all add: Let_def length_swap)

lemma mset_shuffle_from:
  "in_unit g \<Longrightarrow> k < length xs \<Longrightarrow> mset (fst (shuffle_from k xs g)) = mset xs"
proof (induction k arbitrary: xs g)
  case 0
  show ?case by simp
next
  case (Suc k)
  let ?j = "nat \<lfloor>g 0 * real (Suc k + 1)\<rfloor>"
  have j: "?j \<le> Suc k" using Suc.prems(1) draw_in_range[of "g 0" k] by (simp add: in_unit_def)
  have "mset (fst (shuffle_from k (swap (Suc k) ?j xs) (\<lambda>n. g (Suc n))))
      = mset (swap (Suc k) ?j xs)"
    using Suc.IH[OF in_unit_shift[OF Suc.prems(1)], of "swap (Suc k) ?j xs"] Suc.prems(2)
    by (simp add: length_swap)
  also have "\<dots> = mset xs" using mset_swap_list[of "Suc k" xs ?j] j Suc.prems(2) by simp
  finally show ?case by (simp add: Let_def)
qed

lemma length_shuffle: "length (fst (shuffle xs g)) = length xs"
  by (simp add: shuffle_def length_shuffle_from)

lemma mset_shuffle: "in_unit g \<Longrightarrow> mset (fst (shuffle xs g)) = mset xs"
proof (cases xs)
  case Nil
  then show ?thesis by (simp add: shuffle_def)
next
  case (Cons x ys)
  assume "in_unit g"
  then show ?thesis using mset_shuffle_from[of g "length xs - 1" xs] Cons by (simp add: shuffle_def)
qed

lemma concat_reshape: "concat (reshape flat R S) = take (R * S) flat"
proof (induction R)
  case 0
  show ?case by (simp add: reshape_def)
next
  case (Suc R)
  have "concat (reshape flat (Suc R) S) = concat (reshape flat R S) @ take S (drop (R * S) flat)"
    by (simp add: reshape_def slice_def)
  moreover have "Suc R * S = R * S + S" by simp
  ultimately show ?case using Suc take_add[of "R * S" S flat] by (simp only:)
qed

lemma rows_reshape:
  assumes "length flat = R * S"
  shows "list_all (\<lambda>row. length row = S) (reshape flat R S)"
proof -
  have "length (slice flat (i * S) ((i + 1) * S)) = S" if "i < R" for i
  proof -
    have "Suc i * S \<le> R * S" using that by (simp add: Suc_leI mult_le_mono1 del: mult_Suc)
    then show ?thesis using assms by (simp add: slice_def)
  qed
  then show ?thesis by (simp add: reshape_def list_all_iff)
qed

lemma length_flat: "length (concat (replicate R (map int [0..<S]))) = R * S"
  by (induction R) simp_all


lemma late_draws_in_unit: "in_unit late_draws"
  by (simp add: in_unit_def late_draws_def)

lemma shuffle_late:
  "fst (shuffle [0, 1, 0, 1 :: int] late_draws) = [0, 0, 1, 1]"
  by (simp add: shuffle_def eval_nat_numeral Let_def late_draws_def swap_def)

lemma colours_shuffled_value:
  "colours_shuffled =
     Inr \<lparr> trialList = colours, nReps = 2, method_ = FULL_RANDOM, name = Undefined,
           nStim = 2, nTotal = 4, nRemaining = 4, thisRepN = 0, thisTrialN = - 1, thisN = - 1,
           thisIndex = Some 0, ran = 0, order = - 1, snapshots = [],
           trialSequence = [[0, 0], [1, 1]], thisTrial = NullTrial, finished = Bool False,
           attrs = (\<lambda>_. Undefined) \<rparr>"
proof -
  have f: "concat (replicate 2 (indices_of colours)) = [0, 1, 0, 1]"
    by (simp add: indices_of_def colours_def numeral_2_eq_2)
  have r: "reshape [0, 0, 1, 1 :: int] 2 2 = [[0, 0], [1, 1]]"
    by (simp add: reshape_def slice_def numeral_2_eq_2)
  have l: "int (length colours) = 2" by (simp add: colours_def)
  show ?thesis
    unfolding colours_shuffled_def TrialHandler_def prepareTrialList_def prepareSequence_def
    by (simp add: Let_def f shuffle_late r l) (simp add: colours_def)
qed

lemma full_random_rows:
  assumes "in_unit g"
  shows "prepareSequence FULL_RANDOM r ts (int (length ts)) g
      = Inr (reshape (fst (shuffle (concat (replicate (nat r) (map int [0..<length ts]))) g))
               (nat r) (length ts))"
    and "length (reshape (fst (shuffle (concat (replicate (nat r) (map int [0..<length ts]))) g))
               (nat r) (length ts)) = nat r"
    and "list_all (\<lambda>row. length row = length ts)
           (reshape (fst (shuffle (concat (replicate (nat r) (map int [0..<length ts]))) g))
               (nat r) (length ts))"
    and "concat (reshape (fst (shuffle (concat (replicate (nat r) (map int [0..<length ts]))) g))
               (nat r) (length ts))
      = fst (shuffle (concat (replicate (nat r) (map int [0..<length ts]))) g)"
    and "mset (concat (reshape
              (fst (shuffle (concat (replicate (nat r) (map int [0..<length ts]))) g))
               (nat r) (length ts)))
      = mset (concat (replicate (nat r) (map int [0..<length ts])))"
proof -
  let ?S = "length ts" and ?R = "nat r"
  let ?flat = "concat (replicate ?R (map int [0..<?S]))"
  let ?shuffled = "fst (shuffle ?flat g)"
  show "prepareSequence FULL_RANDOM r ts (int ?S) g = Inr (reshape ?shuffled ?R ?S)"
    by (simp add: prepareSequence_def indices_of_def Let_def)
  have lens: "length ?shuffled = ?R * ?S" by (simp add: length_shuffle length_flat)
  show "length (reshape ?shuffled ?R ?S) = ?R" by (rule length_reshape)
  show "list_all (\<lambda>row. length row = ?S) (reshape ?shuffled ?R ?S)"
    by (rule rows_reshape[OF lens])
  show cc: "concat (reshape ?shuffled ?R ?S) = ?shuffled"
    unfolding concat_reshape using lens by simp
  show "mset (concat (reshape ?shuffled ?R ?S)) = mset ?flat"
    unfolding cc by (rule mset_shuffle[OF assms])
qed

lemma full_random_handler:
  "\<exists>h. TrialHandler imp g (ArgArray ts) r (Some FULL_RANDOM) nm = Inr h
     \<and> trialList h = (if ts = [] then [NoTrial] else ts)
     \<and> nStim h = int (length (trialList h))
     \<and> prepareSequence FULL_RANDOM r (trialList h) (int (length (trialList h))) g
         = Inr (trialSequence h)"
  by (simp add: TrialHandler_def prepareTrialList_def prepareSequence_def Let_def)

text \<open>
  C8. For every trial list, every repetition count and every random source whose draws
  lie in \<open>[0, 1)\<close>, \<^verbatim>\<open>_prepareSequence\<close> with the method \<^verbatim>\<open>FULL_RANDOM\<close> returns a sequence:
  the shuffle of the flat list of \<open>nReps\<close> copies of \<open>[0, ..., nStim - 1]\<close>, which has
  \<open>nReps * nStim\<close> entries, cut into \<open>nReps\<close> rows of \<open>nStim\<close> entries each; the rows put end
  to end are the shuffled list and hold, as a multiset, exactly \<open>nReps\<close> copies of
  \<open>[0, ..., nStim - 1]\<close>. The constructor returns a handler with such a sequence for every
  array of trials. A single row need not be a permutation: for two trials and two repeats
  there is a source that gives the rows \<open>[0, 0]\<close> and \<open>[1, 1]\<close>.
\<close>

theorem full_random_ordering:
  assumes "in_unit g"
  shows "(\<exists>sq. prepareSequence FULL_RANDOM r ts (int (length ts)) g = Inr sq
        \<and> sq = reshape (fst (shuffle (concat (replicate (nat r) (map int [0..<length ts]))) g))
                 (nat r) (length ts)
        \<and> length (concat (replicate (nat r) (map int [0..<length ts]))) = nat r * length ts
        \<and> length sq = nat r
        \<and> list_all (\<lambda>row. length row = length ts) sq
        \<and> concat sq = fst (shuffle (concat (replicate (nat r) (map int [0..<length ts]))) g)
        \<and> mset (concat sq) = mset (concat (replicate (nat r) (map int [0..<length ts]))))
    \<and> (\<exists>h. TrialHandler imp g (ArgArray ts) r (Some FULL_RANDOM) nm = Inr h
        \<and> trialList h = (if ts = [] then [NoTrial] else ts)
        \<and> nStim h = int (length (trialList h))
        \<and> length (trialSequence h) = nat r
        \<and> list_all (\<lambda>row. length row = length (trialList h)) (trialSequence h)
        \<and> concat (trialSequence h)
            = fst (shuffle (concat (replicate (nat r) (map int [0..<length (trialList h)]))) g)
        \<and> mset (concat (trialSequence h))
            = mset (concat (replicate (nat r) (map int [0..<length (trialList h)]))))
    \<and> (\<exists>g' h'. in_unit g'
          \<and> TrialHandler no_resources g' (ArgArray colours) 2 (Some FULL_RANDOM) Undefined = Inr h'
          \<and> trialSequence h' = [[0, 0], [1, 1]])"
proof -
  have 1: "\<exists>sq. prepareSequence FULL_RANDOM r ts (int (length ts)) g = Inr sq
        \<and> sq = reshape (fst (shuffle (concat (replicate (nat r) (map int [0..<length ts]))) g))
                 (nat r) (length ts)
        \<and> length (concat (replicate (nat r) (map int [0..<length ts]))) = nat r * length ts
        \<and> length sq = nat r
        \<and> list_all (\<lambda>row. length row = length ts) sq
        \<and> concat sq = fst (shuffle (concat (replicate (nat r) (map int [0..<length ts]))) g)
        \<and> mset (concat sq) = mset (concat (replicate (nat r) (map int [0..<length ts])))"
    using full_random_rows[OF assms, where r = r and ts = ts] length_flat[of "nat r" "length ts"]
    by blast
  obtain h where h: "TrialHandler imp g (ArgArray ts) r (Some FULL_RANDOM) nm = Inr h"
    and tl: "trialList h = (if ts = [] then [NoTrial] else ts)"
    and st: "nStim h = int (length (trialList h))"
    and sq: "prepareSequence FULL_RANDOM r (trialList h) (int (length (trialList h))) g
         = Inr (trialSequence h)"
    using full_random_handler by blast
  have e: "trialSequence h
      = reshape (fst (shuffle (concat (replicate (nat r) (map int [0..<length (trialList h)]))) g))
          (nat r) (length (trialList h))"
    using sq full_random_rows(1)[OF assms, where r = r and ts = "trialList h"] by simp
  have 2: "\<exists>h. TrialHandler imp g (ArgArray ts) r (Some FULL_RANDOM) nm = Inr h
        \<and> trialList h = (if ts = [] then [NoTrial] else ts)
        \<and> nStim h = int (length (trialList h))
        \<and> length (trialSequence h) = nat r
        \<and> list_all (\<lambda>row. length row = length (trialList h)) (trialSequence h)
        \<and> concat (trialSequence h)
            = fst (shuffle (concat (replicate (nat r) (map int [0..<length (trialList h)]))) g)
        \<and> mset (concat (trialSequence h))
            = mset (concat (replicate (nat r) (map int [0..<length (trialList h)])))"
    using h tl st full_random_rows(2-5)[OF assms, where r = r and ts = "trialList h"]
    unfolding e[symmetric]
    by blast
  have 3: "\<exists>g' h'. in_unit g'
          \<and> TrialHandler no_resources g' (ArgArray colours) 2 (Some FULL_RANDOM) Undefined = Inr h'
          \<and> trialSequence h' = [[0, 0], [1, 1]]"
    using late_draws_in_unit colours_shuffled_value unfolding colours_shuffled_def
    by (intro exI[of _ late_draws]) simp
  show ?thesis using 1 2 3 by blast
qed

theorem full_random_ordering_witness:
  "in_unit late_draws
   \<and> prepareSequence FULL_RANDOM 2 colours (int (length colours)) late_draws
       = Inr [[0, 0], [1, 1]]
   \<and> TrialHandler no_resources late_draws (ArgArray colours) 2 (Some FULL_RANDOM) Undefined
       = Inr (projr colours_shuffled)
   \<and> trialSequence (projr colours_shuffled) = [[0, 0], [1, 1]]
   \<and> mset (concat (trialSequence (projr colours_shuffled)))
       = mset (concat (replicate 2 [0, 1]))"
proof -
  note T = full_random_ordering[OF late_draws_in_unit, where r = 2 and ts = colours
      and imp = no_resources and nm = Undefined]
  have a: "TrialHandler no_resources late_draws (ArgArray colours) 2 (Some FULL_RANDOM) Undefined
      = Inr (projr colours_shuffled)"
    unfolding colours_shuffled_def[symmetric] by (simp add: colours_shuffled_value)
  have i: "map int [0..<length colours] = [0, 1]" by (simp add: colours_def)
  have l: "length colours = 2" by (simp add: colours_def)
  have i2: "map int [0..<2] = [0, 1]" by (simp add: numeral_2_eq_2)
  have f: "concat (replicate 2 [0, 1 :: int]) = [0, 1, 0, 1]"
    by (simp add: numeral_2_eq_2)
  have r: "reshape [0, 0, 1, 1 :: int] 2 2 = [[0, 0], [1, 1]]"
    by (simp add: reshape_def slice_def numeral_2_eq_2)
  obtain sq where sq: "prepareSequence FULL_RANDOM 2 colours (int (length colours)) late_draws
        = Inr sq"
    and v: "sq = reshape (fst (shuffle (concat (replicate (nat 2)
                  (map int [0..<length colours]))) late_draws)) (nat 2) (length colours)"
    using T by blast
  have "sq = [[0, 0], [1, 1]]" unfolding v by (simp add: l i2 f shuffle_late r)
  then have p: "prepareSequence FULL_RANDOM 2 colours (int (length colours)) late_draws
      = Inr [[0, 0], [1, 1]]"
    using sq by simp
  obtain h where h: "TrialHandler no_resources late_draws (ArgArray colours) 2 (Some FULL_RANDOM)
        Undefined = Inr h"
    and m: "mset (concat (trialSequence h))
        = mset (concat (replicate (nat 2) (map int [0..<length (trialList h)])))"
    and t: "trialList h = (if colours = [] then [NoTrial] else colours)"
    using T by blast
  have hh: "h = projr colours_shuffled" using h a by simp
  have "colours \<noteq> []" by (simp add: colours_def)
  then have m': "mset (concat (trialSequence (projr colours_shuffled)))
       = mset (concat (replicate 2 [0, 1]))"
    using m t i unfolding hh by simp
  have s: "trialSequence (projr colours_shuffled) = [[0, 0], [1, 1]]"
    by (simp add: colours_shuffled_value)
  show ?thesis using late_draws_in_unit p a s m' by blast
qed

end
